theory Spec2Isabelle
  imports Complex_Main
begin

section \<open>The scheduler (threads/scheduler.cc)\<close>

subsection \<open>Threads and the kernel context\<close>

text \<open>
  The scheduler reaches the global \<open>kernel\<close> object: the running thread, the statistics
  clock, the interrupt level and its own three queues. The model passes that context
  explicitly. Threads are heap objects: a thread pointer is a natural number and the
  table \<open>threads\<close> holds the fields the scheduler reads and writes through the getters
  and setters of the \<open>Thread\<close> class. Diagnostic output (\<open>cout\<close>) is not part of the model.
\<close>

datatype ThreadStatus = JUST_CREATED | RUNNING | READY | BLOCKED | ZOMBIE

datatype IntStatus = IntOff | IntOn

datatype failure = AssertionFailed

record Thread =
  ID :: int
  priority :: int
  burstTime :: int
  startTime :: int
  startWaitTime :: int
  status :: ThreadStatus

type_synonym thread_ptr = nat

record Kernel =
  threads :: "thread_ptr \<Rightarrow> Thread"
  currentThread :: thread_ptr
  totalTicks :: int
  userTicks :: int
  interruptLevel :: IntStatus
  L1Queue :: "thread_ptr list"
  L2Queue :: "thread_ptr list"
  readyList :: "thread_ptr list"
  yieldCalls :: "thread_ptr list"

definition setStatus :: "Kernel \<Rightarrow> thread_ptr \<Rightarrow> ThreadStatus \<Rightarrow> Kernel" where
  "setStatus k t s = k\<lparr>threads := (threads k)(t := (threads k t)\<lparr>status := s\<rparr>)\<rparr>"

definition setPriority :: "Kernel \<Rightarrow> thread_ptr \<Rightarrow> int \<Rightarrow> Kernel" where
  "setPriority k t p = k\<lparr>threads := (threads k)(t := (threads k t)\<lparr>priority := p\<rparr>)\<rparr>"

definition setStartWaitTime :: "Kernel \<Rightarrow> thread_ptr \<Rightarrow> int \<Rightarrow> Kernel" where
  "setStartWaitTime k t w =
     k\<lparr>threads := (threads k)(t := (threads k t)\<lparr>startWaitTime := w\<rparr>)\<rparr>"

text \<open>
  Modelled from the spec: \<open>Thread::Yield\<close> belongs to the thread package, which is
  outside the scheduler source. The model records that the running thread was asked to
  yield; the context switch that follows is not modelled.
\<close>

definition Yield :: "Kernel \<Rightarrow> Kernel" where
  "Yield k = k\<lparr>yieldCalls := yieldCalls k @ [currentThread k]\<rparr>"

subsection \<open>The comparison functions of the two sorted queues\<close>

definition burstCmp :: "Thread \<Rightarrow> Thread \<Rightarrow> int" where
  "burstCmp a b =
     (let aTime = burstTime a; bTime = burstTime b
      in if aTime = bTime then 0 else if aTime > bTime then 1 else -1)"

definition priorityCmp :: "Thread \<Rightarrow> Thread \<Rightarrow> int" where
  "priorityCmp a b =
     (let aPriority = priority a; bPriority = priority b
      in if aPriority = bPriority then 0 else if aPriority > bPriority then -1 else 1)"

subsection \<open>The list library\<close>

text \<open>
  Modelled from the spec: the list classes (\<open>List\<close>, \<open>SortedList\<close>) are not part of the
  scheduler source. A sorted list keeps its elements in the order of its comparison
  function and is stable on ties: a new element goes in front of the first element that
  compares strictly greater, behind every element that compares equal. Queueing a thread
  twice in one list, removing a thread that is not in the list and taking the front of an
  empty list are violated invariants and stop the machine (the error kind Fatal).
\<close>

fun SortedInsert ::
  "(Thread \<Rightarrow> Thread \<Rightarrow> int) \<Rightarrow> (thread_ptr \<Rightarrow> Thread) \<Rightarrow> thread_ptr \<Rightarrow>
   thread_ptr list \<Rightarrow> thread_ptr list" where
  "SortedInsert cmp th x [] = [x]"
| "SortedInsert cmp th x (y # ys) =
     (if cmp (th x) (th y) < 0 then x # y # ys else y # SortedInsert cmp th x ys)"

definition Insert ::
  "(Thread \<Rightarrow> Thread \<Rightarrow> int) \<Rightarrow> (thread_ptr \<Rightarrow> Thread) \<Rightarrow> thread_ptr \<Rightarrow>
   thread_ptr list \<Rightarrow> failure + thread_ptr list" where
  "Insert cmp th x q = (if x \<in> set q then Inl AssertionFailed else Inr (SortedInsert cmp th x q))"

definition Append :: "thread_ptr \<Rightarrow> thread_ptr list \<Rightarrow> failure + thread_ptr list" where
  "Append x q = (if x \<in> set q then Inl AssertionFailed else Inr (q @ [x]))"

definition Remove_item :: "thread_ptr \<Rightarrow> thread_ptr list \<Rightarrow> failure + thread_ptr list" where
  "Remove_item x q = (if x \<in> set q then Inr (remove1 x q) else Inl AssertionFailed)"

subsection \<open>Admission, aging and selection\<close>

text \<open>
  The preemption test that \<open>ReadyToRun\<close> and \<open>CheckAging\<close> both carry out after a thread
  has gone into L1. The source computes the estimate in double precision from integer
  tick counts; halves of integers of that size are exact there, so the model computes
  it over the reals.
\<close>

definition estBurst :: "Kernel \<Rightarrow> real" where
  "estBurst k =
     (let actBurst = real_of_int (userTicks k - startTime (threads k (currentThread k)))
      in 0.5 * actBurst + 0.5 * real_of_int (burstTime (threads k (currentThread k))))"

definition preemptSJF :: "Kernel \<Rightarrow> thread_ptr \<Rightarrow> Kernel" where
  "preemptSJF k thread =
     (if 100 \<le> priority (threads k (currentThread k)) \<and>
         priority (threads k (currentThread k)) \<le> 149
      then if ID (threads k (currentThread k)) \<noteq> ID (threads k thread)
           then if real_of_int (burstTime (threads k thread)) < estBurst k
                then Yield k else k
           else k
      else k)"

definition ReadyToRun :: "Kernel \<Rightarrow> thread_ptr \<Rightarrow> failure + Kernel" where
  "ReadyToRun k thread =
     (if interruptLevel k \<noteq> IntOff then Inl AssertionFailed
      else
        let k1 = setStatus k thread READY;
            p = priority (threads k1 thread);
            nowTime = totalTicks k1
        in case (if 100 \<le> p \<and> p \<le> 149
                 then (case Insert burstCmp (threads k1) thread (L1Queue k1) of
                         Inl e \<Rightarrow> Inl e | Inr q \<Rightarrow> Inr (k1\<lparr>L1Queue := q\<rparr>))
                 else if 50 \<le> p \<and> p \<le> 99
                 then (case Insert priorityCmp (threads k1) thread (L2Queue k1) of
                         Inl e \<Rightarrow> Inl e | Inr q \<Rightarrow> Inr (k1\<lparr>L2Queue := q\<rparr>))
                 else (case Append thread (readyList k1) of
                         Inl e \<Rightarrow> Inl e | Inr q \<Rightarrow> Inr (k1\<lparr>readyList := q\<rparr>))) of
             Inl e \<Rightarrow> Inl e
           | Inr k2 \<Rightarrow>
               let k3 = setStartWaitTime k2 thread nowTime
               in Inr (if 100 \<le> p \<and> p \<le> 149 then preemptSJF k3 thread else k3))"

definition CheckAging :: "Kernel \<Rightarrow> thread_ptr \<Rightarrow> failure + (bool \<times> Kernel)" where
  "CheckAging k thread =
     (let nowTime = totalTicks k
      in if status (threads k thread) = READY \<and>
            nowTime - startWaitTime (threads k thread) \<ge> 1500
         then
           let oldPriority = priority (threads k thread);
               newPriority = (if oldPriority + 10 > 149 then 149 else oldPriority + 10);
               k1 = setPriority k thread newPriority
           in if newPriority \<ge> 100 \<and> newPriority < 110
              then
                let k2 = (if thread \<in> set (L2Queue k1)
                          then k1\<lparr>L2Queue := remove1 thread (L2Queue k1)\<rparr> else k1)
                in case Insert burstCmp (threads k2) thread (L1Queue k2) of
                     Inl e \<Rightarrow> Inl e
                   | Inr q \<Rightarrow>
                       Inr (True,
                            setStartWaitTime (preemptSJF (k2\<lparr>L1Queue := q\<rparr>) thread)
                              thread nowTime)
              else if newPriority \<ge> 50 \<and> newPriority < 60
              then
                case Remove_item thread (readyList k1) of
                  Inl e \<Rightarrow> Inl e
                | Inr r \<Rightarrow>
                    (case Insert priorityCmp (threads k1) thread (L2Queue k1) of
                       Inl e \<Rightarrow> Inl e
                     | Inr q \<Rightarrow>
                         Inr (False,
                              setStartWaitTime (k1\<lparr>readyList := r, L2Queue := q\<rparr>)
                                thread nowTime))
              else Inr (False, setStartWaitTime k1 thread nowTime)
         else Inr (False, k))"

definition FindNextToRun :: "Kernel \<Rightarrow> failure + (thread_ptr option \<times> Kernel)" where
  "FindNextToRun k =
     (if interruptLevel k \<noteq> IntOff then Inl AssertionFailed
      else case L1Queue k of
             x # xs \<Rightarrow> Inr (Some x, k\<lparr>L1Queue := xs\<rparr>)
           | [] \<Rightarrow>
              (case L2Queue k of
                 x # xs \<Rightarrow> Inr (Some x, k\<lparr>L2Queue := xs\<rparr>)
               | [] \<Rightarrow>
                  (case readyList k of
                     x # xs \<Rightarrow> Inr (Some x, k\<lparr>readyList := xs\<rparr>)
                   | [] \<Rightarrow> Inr (None, k))))"

section \<open>The file system (filesys/filesys.cc)\<close>

subsection \<open>Disk structures\<close>

text \<open>
  Sectors are machine integers in the source, with \<open>-1\<close> for "no sector"; the model
  keeps them as integers. The bitmap of free sectors, the directory table and the file
  header are classes of the repository whose sources are outside \<open>filesys.cc\<close>; they
  are modelled from the specification, each under a comment that says so.
\<close>

definition FreeMapSector :: int where
  "FreeMapSector = 0"

definition DirectorySector :: int where
  "DirectorySector = 1"

record FileHeader =
  numBytes :: int
  dataSectors :: "int list"

record DirectoryEntry =
  inUse :: bool
  name :: string
  sector :: int
  isDir :: bool

text \<open>
  Modelled from the spec: the persistent bitmap has one bit per sector, true for a used
  sector. \<open>FindAndSet\<close> returns the lowest free sector and marks it, or \<open>-1\<close> when the
  map is full. All changes stay in memory until the map is written back.
\<close>

fun firstFree :: "bool list \<Rightarrow> nat option" where
  "firstFree [] = None"
| "firstFree (b # bs) = (if \<not> b then Some 0 else map_option Suc (firstFree bs))"

definition FindAndSet :: "bool list \<Rightarrow> int \<times> bool list" where
  "FindAndSet freeMap =
     (case firstFree freeMap of
        None \<Rightarrow> (-1, freeMap)
      | Some i \<Rightarrow> (int i, freeMap[i := True]))"

definition Test :: "bool list \<Rightarrow> int \<Rightarrow> bool" where
  "Test freeMap s = (0 \<le> s \<and> nat s < length freeMap \<and> freeMap ! nat s)"

definition Clear :: "bool list \<Rightarrow> int \<Rightarrow> bool list" where
  "Clear freeMap s = (if 0 \<le> s then freeMap[nat s := False] else freeMap)"

text \<open>
  Modelled from the spec: \<open>FileHeader::Deallocate\<close> returns every data block the header
  owns to the free map.
\<close>

definition Deallocate :: "FileHeader \<Rightarrow> bool list \<Rightarrow> bool list" where
  "Deallocate hdr freeMap = foldl Clear freeMap (dataSectors hdr)"

text \<open>
  Modelled from the spec: the directory is a table of fixed capacity. \<open>Find\<close> returns
  the sector of the entry in use under a name, or \<open>-1\<close>; \<open>Add\<close> fails when the name is
  present or no slot is free; \<open>Remove\<close> frees the entry of a name. The table is
  searched from its first slot. Names are compared as whole strings; the limit on the
  length of an entry's name is not modelled.
\<close>

fun FindIndex :: "DirectoryEntry list \<Rightarrow> string \<Rightarrow> nat option" where
  "FindIndex [] nm = None"
| "FindIndex (e # es) nm =
     (if inUse e \<and> name e = nm then Some 0 else map_option Suc (FindIndex es nm))"

definition Directory_Find :: "DirectoryEntry list \<Rightarrow> string \<Rightarrow> int" where
  "Directory_Find table nm =
     (case FindIndex table nm of None \<Rightarrow> -1 | Some i \<Rightarrow> sector (table ! i))"

definition Directory_isDir :: "DirectoryEntry list \<Rightarrow> string \<Rightarrow> bool" where
  "Directory_isDir table nm =
     (case FindIndex table nm of None \<Rightarrow> False | Some i \<Rightarrow> isDir (table ! i))"

fun firstUnused :: "DirectoryEntry list \<Rightarrow> nat option" where
  "firstUnused [] = None"
| "firstUnused (e # es) = (if \<not> inUse e then Some 0 else map_option Suc (firstUnused es))"

definition Directory_Add ::
  "DirectoryEntry list \<Rightarrow> string \<Rightarrow> int \<Rightarrow> bool \<Rightarrow> bool \<times> DirectoryEntry list" where
  "Directory_Add table nm newSector dir =
     (if FindIndex table nm \<noteq> None then (False, table)
      else case firstUnused table of
             None \<Rightarrow> (False, table)
           | Some i \<Rightarrow>
               (True, table[i := \<lparr>inUse = True, name = nm, sector = newSector, isDir = dir\<rparr>]))"

definition Directory_Remove ::
  "DirectoryEntry list \<Rightarrow> string \<Rightarrow> bool \<times> DirectoryEntry list" where
  "Directory_Remove table nm =
     (case FindIndex table nm of
        None \<Rightarrow> (False, table)
      | Some i \<Rightarrow> (True, table[i := (table ! i)\<lparr>inUse := False\<rparr>]))"

subsection \<open>The state of the file system\<close>

text \<open>
  An \<open>OpenFile\<close> object is bound to the sector of a file header. The file system holds
  two of them for its whole life, \<open>directoryFile\<close> (the root directory) and
  \<open>freeMapFile\<close>; every other one is made by \<open>new\<close> and is live until \<open>delete\<close>.

  Modelled from the spec: the content of a file is reached through the sector of its
  header. \<open>tables s\<close> is what \<open>Directory::FetchFrom\<close> reads from the file whose header is
  in sector \<open>s\<close>, \<open>headers s\<close> is what \<open>FileHeader::FetchFrom\<close> reads from sector \<open>s\<close>,
  and \<open>freeMapData\<close> is the content of the free-map file. \<open>diskWrites\<close> lists the
  write-backs in the order they were made.

  Path buffers are C character arrays; \<open>buffers a\<close> is the string held by the array at
  address \<open>a\<close>. The arrays \<open>name[1000]\<close> and \<open>tarPathName[1000]\<close> are locals of the
  operations: they are taken at \<open>stackTop\<close>, above every array of the caller. Writing
  a string of 1000 or more characters into one of them is undefined behaviour of the
  source; the model stops with \<open>BufferOverflow\<close> there.
\<close>

datatype OpenFile = DirectoryFile | FreeMapFile | Opened nat int

fun hdrSector :: "OpenFile \<Rightarrow> int" where
  "hdrSector DirectoryFile = DirectorySector"
| "hdrSector FreeMapFile = FreeMapSector"
| "hdrSector (Opened i s) = s"

datatype disk_write = HeaderWrite int | DirectoryWrite int | FreeMapWrite

datatype fs_error = BufferOverflow | OutOfFuel

record FileSystem =
  headers :: "int \<Rightarrow> FileHeader"
  tables :: "int \<Rightarrow> DirectoryEntry list"
  freeMapData :: "bool list"
  diskWrites :: "disk_write list"
  liveFiles :: "nat set"
  nextFile :: nat
  openFileTable :: "int \<Rightarrow> OpenFile option"
  openFileTableTop :: int
  buffers :: "nat \<Rightarrow> string"
  stackTop :: nat

text \<open>
  The constants and the allocator that \<open>Create\<close> takes from other files of the
  repository: the canonical size of a directory file, and \<open>FileHeader::Allocate\<close>, which
  returns the total size it charged (not positive on failure), the free map after the
  allocation and the header it filled in.
\<close>

record Environment =
  DirectoryFileSize :: int
  Allocate :: "bool list \<Rightarrow> int \<Rightarrow> int \<times> bool list \<times> FileHeader"

definition newOpenFile :: "FileSystem \<Rightarrow> int \<Rightarrow> OpenFile \<times> FileSystem" where
  "newOpenFile st s =
     (Opened (nextFile st) s,
      st\<lparr>liveFiles := insert (nextFile st) (liveFiles st), nextFile := Suc (nextFile st)\<rparr>)"

fun deleteOpenFile :: "FileSystem \<Rightarrow> OpenFile \<Rightarrow> FileSystem" where
  "deleteOpenFile st (Opened i s) = st\<lparr>liveFiles := liveFiles st - {i}\<rparr>"
| "deleteOpenFile st f = st"

text \<open>The guarded delete of the source: \<open>if (curDirFile != directoryFile) delete curDirFile\<close>.\<close>

definition deleteUnlessRoot :: "FileSystem \<Rightarrow> OpenFile \<Rightarrow> FileSystem" where
  "deleteUnlessRoot st f = (if f \<noteq> DirectoryFile then deleteOpenFile st f else st)"

definition writeHeader :: "FileSystem \<Rightarrow> int \<Rightarrow> FileHeader \<Rightarrow> FileSystem" where
  "writeHeader st s hdr =
     st\<lparr>headers := (headers st)(s := hdr), diskWrites := diskWrites st @ [HeaderWrite s]\<rparr>"

definition writeDirectory :: "FileSystem \<Rightarrow> OpenFile \<Rightarrow> DirectoryEntry list \<Rightarrow> FileSystem" where
  "writeDirectory st f table =
     st\<lparr>tables := (tables st)(hdrSector f := table),
        diskWrites := diskWrites st @ [DirectoryWrite (hdrSector f)]\<rparr>"

definition writeFreeMap :: "FileSystem \<Rightarrow> bool list \<Rightarrow> FileSystem" where
  "writeFreeMap st freeMap =
     st\<lparr>freeMapData := freeMap, diskWrites := diskWrites st @ [FreeMapWrite]\<rparr>"

subsection \<open>Path resolution\<close>

text \<open>
  \<open>strtok\<close> of the C library with the delimiter \<open>/\<close>: it skips leading delimiters,
  returns null when nothing is left, and otherwise returns the token up to the next
  delimiter and keeps the text behind that delimiter for the next call. The argument
  is the text not yet tokenised.
\<close>

definition strtok :: "string \<Rightarrow> (string \<times> string) option" where
  "strtok s =
     (case dropWhile (\<lambda>c. c = CHR ''/'') s of
        [] \<Rightarrow> None
      | t \<Rightarrow> Some (takeWhile (\<lambda>c. c \<noteq> CHR ''/'') t,
                    drop 1 (dropWhile (\<lambda>c. c \<noteq> CHR ''/'') t)))"

lemma strtok_shorter:
  assumes "strtok s = Some (tok, r)"
  shows "length r < length s"
proof -
  define t where "t = dropWhile (\<lambda>c. c = CHR ''/'') s"
  have ne: "t \<noteq> []" using assms unfolding strtok_def t_def [symmetric]
    by (cases t) simp_all
  have r: "r = drop 1 (dropWhile (\<lambda>c. c \<noteq> CHR ''/'') t)"
    using assms unfolding strtok_def t_def [symmetric]
    by (cases t) simp_all
  have a: "length (dropWhile (\<lambda>c. c \<noteq> CHR ''/'') t) \<le> length t"
    by (rule length_dropWhile_le)
  have b: "length t \<le> length s"
    unfolding t_def by (rule length_dropWhile_le)
  from ne have "0 < length t" by simp
  with a b show ?thesis unfolding r length_drop by linarith
qed

function FindSubDirectory_loop ::
  "string \<Rightarrow> string \<Rightarrow> OpenFile \<Rightarrow> DirectoryEntry list \<Rightarrow> nat \<Rightarrow> FileSystem \<Rightarrow>
   OpenFile option \<times> FileSystem" where
  "FindSubDirectory_loop curCut rest curDirFile curDirectory nameBuf st =
     (case strtok rest of
        Some (nextCut, rest') \<Rightarrow>
          (let s = Directory_Find curDirectory curCut
           in if s = -1 then (None, deleteUnlessRoot st curDirFile)
              else
                let st1 = deleteUnlessRoot st curDirFile;
                    (newDirFile, st2) = newOpenFile st1 s
                in FindSubDirectory_loop nextCut rest' newDirFile
                     (tables st2 (hdrSector newDirFile)) nameBuf st2)
      | None \<Rightarrow> (Some curDirFile, st\<lparr>buffers := (buffers st)(nameBuf := curCut)\<rparr>))"
  by pat_completeness auto
termination
proof (relation "measure (\<lambda>(curCut, rest, f, d, n, st). length rest)")
  show "wf (measure (\<lambda>(curCut, rest, f, d, n, st). length rest))"
    by (rule wf_measure)
next
  fix curCut rest :: string and curDirFile :: OpenFile
    and curDirectory :: "DirectoryEntry list" and nameBuf :: nat and st ya :: FileSystem
    and x2 :: "string \<times> string" and x y :: string and xc :: OpenFile
  assume "strtok rest = Some x2" and "(x, y) = x2"
  then have "strtok rest = Some (x, y)" by simp
  then have "length y < length rest" by (rule strtok_shorter)
  then show "((x, y, xc, tables ya (hdrSector xc), nameBuf, ya),
              (curCut, rest, curDirFile, curDirectory, nameBuf, st))
             \<in> measure (\<lambda>(curCut, rest, f, d, n, st). length rest)"
    by simp
qed

text \<open>
  \<open>strtok\<close> ends each token by writing a null character over the delimiter behind it.
  After the first call, at the first null character at the latest, the string in the
  array is the leading slashes and the first token; later calls write behind that. On
  success \<open>strcpy(name, cut)\<close> leaves the terminal name in the array.
\<close>

definition FindSubDirectory :: "nat \<Rightarrow> FileSystem \<Rightarrow> OpenFile option \<times> FileSystem" where
  "FindSubDirectory nameBuf st =
     (case strtok (buffers st nameBuf) of
        None \<Rightarrow> (None, st)
      | Some (curCut, rest) \<Rightarrow>
          FindSubDirectory_loop curCut rest DirectoryFile (tables st DirectorySector) nameBuf
            (st\<lparr>buffers := (buffers st)
                 (nameBuf := takeWhile (\<lambda>c. c = CHR ''/'') (buffers st nameBuf) @ curCut)\<rparr>))"

declare FindSubDirectory_loop.simps [simp del]

subsection \<open>Create, Open, Remove and List\<close>

text \<open>
  Each operation copies the caller's path into its local array \<open>name\<close> with \<open>strcpy\<close>
  and resolves the copy. \<open>enterFrame st pathName n\<close> is the state after that copy, with
  \<open>n\<close> local arrays taken from the stack; \<open>leaveFrame\<close> gives them back on return.
\<close>

definition enterFrame :: "FileSystem \<Rightarrow> nat \<Rightarrow> nat \<Rightarrow> FileSystem" where
  "enterFrame st pathName n =
     st\<lparr>buffers := (buffers st)(stackTop st := buffers st pathName),
        stackTop := stackTop st + n\<rparr>"

definition leaveFrame :: "FileSystem \<Rightarrow> FileSystem \<Rightarrow> FileSystem" where
  "leaveFrame st st' = st'\<lparr>stackTop := stackTop st\<rparr>"

definition Create ::
  "Environment \<Rightarrow> nat \<Rightarrow> int \<Rightarrow> bool \<Rightarrow> FileSystem \<Rightarrow> (fs_error + bool) \<times> FileSystem" where
  "Create env pathName initialSize dir st =
     (let initialSize' = (if dir then DirectoryFileSize env else initialSize)
      in if length (buffers st pathName) \<ge> 1000 then (Inl BufferOverflow, st)
         else
           let nameBuf = stackTop st;
               (found, st1) = FindSubDirectory nameBuf (enterFrame st pathName 1)
           in case found of
                None \<Rightarrow> (Inr False, leaveFrame st st1)
              | Some curDirFile \<Rightarrow>
                  let directory = tables st1 (hdrSector curDirFile);
                      nm = buffers st1 nameBuf;
                      (success, st2) =
                        (if Directory_Find directory nm \<noteq> -1 then (False, st1)
                         else
                           let (newSector, freeMap1) = FindAndSet (freeMapData st1)
                           in if newSector = -1 then (False, st1)
                              else
                                let (added, directory1) = Directory_Add directory nm newSector dir
                                in if \<not> added then (False, st1)
                                   else
                                     let (totalSize, freeMap2, hdr) =
                                           Allocate env freeMap1 initialSize'
                                     in if totalSize \<le> 0 then (False, st1)
                                        else (True,
                                              writeFreeMap
                                                (writeDirectory (writeHeader st1 newSector hdr)
                                                   curDirFile directory1)
                                                freeMap2))
                  in (Inr success, leaveFrame st (deleteUnlessRoot st2 curDirFile)))"

definition Open :: "nat \<Rightarrow> FileSystem \<Rightarrow> (fs_error + OpenFile option) \<times> FileSystem" where
  "Open pathName st =
     (if length (buffers st pathName) \<ge> 1000 then (Inl BufferOverflow, st)
      else
        let nameBuf = stackTop st;
            (found, st1) = FindSubDirectory nameBuf (enterFrame st pathName 1)
        in case found of
             None \<Rightarrow> (Inr None, leaveFrame st st1)
           | Some curDirFile \<Rightarrow>
               let directory = tables st1 (hdrSector curDirFile);
                   s = Directory_Find directory (buffers st1 nameBuf)
               in if openFileTableTop st1 \<ge> 487 then (Inr None, leaveFrame st st1)
                  else
                    let (openFile, st2) =
                          (if s \<ge> 0
                           then let (f, st') = newOpenFile st1 s
                                in (Some f,
                                    st'\<lparr>openFileTable :=
                                          (openFileTable st')(openFileTableTop st' \<mapsto> f),
                                        openFileTableTop := openFileTableTop st' + 1\<rparr>)
                           else (None, st1))
                    in (Inr openFile, leaveFrame st (deleteUnlessRoot st2 curDirFile)))"

text \<open>
  The loop of \<open>Remove\<close> over the table of the target directory. \<open>rm\<close> is the recursive
  call \<open>Remove(TRUE, tarPathName)\<close>, whose result the source ignores; \<open>offset\<close> is the
  length of the path of the target. The child's name is copied behind the first
  \<open>offset + 1\<close> characters of \<open>tarPathName\<close>.
\<close>

fun RemoveChildren ::
  "(nat \<Rightarrow> FileSystem \<Rightarrow> (fs_error + bool) \<times> FileSystem) \<Rightarrow> nat \<Rightarrow> nat \<Rightarrow>
   DirectoryEntry list \<Rightarrow> FileSystem \<Rightarrow> fs_error option \<times> FileSystem" where
  "RemoveChildren rm tarPathName offset [] st = (None, st)"
| "RemoveChildren rm tarPathName offset (e # es) st =
     (if inUse e
      then if offset + 1 + length (name e) \<ge> 1000 then (Some BufferOverflow, st)
           else
             let st1 = st\<lparr>buffers := (buffers st)
                          (tarPathName := take (offset + 1) (buffers st tarPathName) @ name e)\<rparr>
             in case rm tarPathName st1 of
                  (Inl err, st2) \<Rightarrow> (Some err, st2)
                | (Inr removed, st2) \<Rightarrow> RemoveChildren rm tarPathName offset es st2
      else RemoveChildren rm tarPathName offset es st)"

text \<open>
  The block of \<open>Remove\<close> that empties a target directory before it is removed: it
  opens the target, reads its table, builds the path of the target followed by a slash
  in \<open>tarPathName\<close>, removes every child in use and deletes the handle of the target.
\<close>

definition RemoveTargetChildren ::
  "(nat \<Rightarrow> FileSystem \<Rightarrow> (fs_error + bool) \<times> FileSystem) \<Rightarrow> nat \<Rightarrow> nat \<Rightarrow> int \<Rightarrow>
   FileSystem \<Rightarrow> fs_error option \<times> FileSystem" where
  "RemoveTargetChildren rm pathName tarPathName s st1 =
     (let (tarOpenFile, sa) = newOpenFile st1 s;
          tarDirectory = tables sa (hdrSector tarOpenFile);
          offset = length (buffers sa pathName);
          sb = sa\<lparr>buffers := (buffers sa)(tarPathName := buffers sa pathName @ ''/'')\<rparr>;
          (e, sc) = RemoveChildren rm tarPathName offset tarDirectory sb
      in (e, deleteOpenFile sc tarOpenFile))"

text \<open>
  The end of \<open>Remove\<close>: fetch the header of the target, give its data blocks and its
  header sector back to the free map, take the entry out of the parent directory, and
  write back the free map and then the parent directory.
\<close>

definition RemoveEntry ::
  "FileSystem \<Rightarrow> OpenFile \<Rightarrow> DirectoryEntry list \<Rightarrow> string \<Rightarrow> int \<Rightarrow> FileSystem" where
  "RemoveEntry st2 curDirFile directory nm s =
     (let fileHdr = headers st2 s;
          freeMap = Clear (Deallocate fileHdr (freeMapData st2)) s;
          directory1 = snd (Directory_Remove directory nm)
      in writeDirectory (writeFreeMap st2 freeMap) curDirFile directory1)"

text \<open>
  \<open>Remove\<close> calls itself on the children of a directory, and the directories on a disk
  need not form a tree, so the recursion is bounded by fuel: one unit for each nested
  call. Every nested call works on a path at least one character longer, and a path of
  1000 characters overflows the array, so 1000 units are never used up (lemma
  \<open>Remove_fuel_suffices\<close> below).
\<close>

primrec RemoveFuel ::
  "nat \<Rightarrow> bool \<Rightarrow> nat \<Rightarrow> FileSystem \<Rightarrow> (fs_error + bool) \<times> FileSystem" where
  "RemoveFuel 0 recursive pathName st = (Inl OutOfFuel, st)"
| "RemoveFuel (Suc fuel) recursive pathName st =
     (if length (buffers st pathName) \<ge> 1000 then (Inl BufferOverflow, st)
      else
        let nameBuf = stackTop st;
            tarPathName = stackTop st + 1;
            (found, st1) = FindSubDirectory nameBuf (enterFrame st pathName 2)
        in case found of
             None \<Rightarrow> (Inr False, leaveFrame st st1)
           | Some curDirFile \<Rightarrow>
               let directory = tables st1 (hdrSector curDirFile);
                   nm = buffers st1 nameBuf;
                   s = Directory_Find directory nm
               in if s = -1
                  then (Inr False, leaveFrame st (deleteUnlessRoot st1 curDirFile))
                  else
                    let (err, st2) =
                          (if Directory_isDir directory nm \<and> recursive
                           then RemoveTargetChildren (RemoveFuel fuel True)
                                  pathName tarPathName s st1
                           else (None, st1))
                    in case err of
                         Some e \<Rightarrow> (Inl e, leaveFrame st st2)
                       | None \<Rightarrow>
                           (Inr True,
                            leaveFrame st
                              (deleteUnlessRoot (RemoveEntry st2 curDirFile directory nm s)
                                 curDirFile)))"

definition Remove :: "bool \<Rightarrow> nat \<Rightarrow> FileSystem \<Rightarrow> (fs_error + bool) \<times> FileSystem" where
  "Remove recursive pathName st = RemoveFuel 1000 recursive pathName st"

text \<open>
  \<open>List\<close> prints; the model keeps what it does to the state: the arrays it writes and
  the files it opens and deletes.
\<close>

definition List_dir :: "bool \<Rightarrow> nat \<Rightarrow> FileSystem \<Rightarrow> fs_error option \<times> FileSystem" where
  "List_dir recursive listDirectoryPathName st =
     (if buffers st listDirectoryPathName = ''/'' then (None, st)
      else if length (buffers st listDirectoryPathName) \<ge> 1000 then (Some BufferOverflow, st)
      else
        let listDirectoryName = stackTop st;
            (found, st1) = FindSubDirectory listDirectoryName
                             (enterFrame st listDirectoryPathName 1)
        in case found of
             None \<Rightarrow> (None, leaveFrame st st1)
           | Some curDirFile \<Rightarrow>
               let directory = tables st1 (hdrSector curDirFile);
                   s = Directory_Find directory (buffers st1 listDirectoryName);
                   st2 = (if s \<ge> 0
                          then let (tmpFile, st') = newOpenFile st1 s
                               in deleteOpenFile st' tmpFile
                          else st1)
               in (None, leaveFrame st (deleteUnlessRoot st2 curDirFile)))"

subsection \<open>Scheduler states used as examples\<close>

definition example_threads :: "thread_ptr \<Rightarrow> Thread" where
  "example_threads =
     (\<lambda>_. \<lparr>ID = 0, priority = 0, burstTime = 0, startTime = 0, startWaitTime = 0,
            status = JUST_CREATED\<rparr>)
     (1 := \<lparr>ID = 1, priority = 120, burstTime = 50, startTime = 0, startWaitTime = 0,
            status = RUNNING\<rparr>,
      2 := \<lparr>ID = 2, priority = 120, burstTime = 20, startTime = 0, startWaitTime = 0,
            status = JUST_CREATED\<rparr>,
      3 := \<lparr>ID = 3, priority = 120, burstTime = 40, startTime = 0, startWaitTime = 0,
            status = JUST_CREATED\<rparr>)"

definition example_kernel :: Kernel where
  "example_kernel =
     \<lparr>threads = example_threads, currentThread = 1, totalTicks = 700, userTicks = 10,
      interruptLevel = IntOff, L1Queue = [], L2Queue = [], readyList = [],
      yieldCalls = []\<rparr>"

definition aging_kernel :: Kernel where
  "aging_kernel =
     \<lparr>threads = example_threads
        (4 := \<lparr>ID = 4, priority = 95, burstTime = 20, startTime = 0, startWaitTime = 0,
               status = READY\<rparr>,
         5 := \<lparr>ID = 5, priority = 45, burstTime = 20, startTime = 0, startWaitTime = 0,
               status = READY\<rparr>),
      currentThread = 1, totalTicks = 1500, userTicks = 10,
      interruptLevel = IntOff, L1Queue = [], L2Queue = [4], readyList = [5],
      yieldCalls = []\<rparr>"

definition l2_kernel :: Kernel where
  "l2_kernel =
     \<lparr>threads = example_threads
        (6 := \<lparr>ID = 6, priority = 75, burstTime = 20, startTime = 0, startWaitTime = 0,
               status = JUST_CREATED\<rparr>,
         7 := \<lparr>ID = 7, priority = 80, burstTime = 20, startTime = 0, startWaitTime = 0,
               status = JUST_CREATED\<rparr>),
      currentThread = 1, totalTicks = 0, userTicks = 0,
      interruptLevel = IntOff, L1Queue = [], L2Queue = [], readyList = [],
      yieldCalls = []\<rparr>"

definition l2_after_first :: Kernel where
  "l2_after_first = projr (ReadyToRun l2_kernel 6)"

definition l2_after_second :: Kernel where
  "l2_after_second = projr (ReadyToRun (l2_after_first\<lparr>totalTicks := 1000\<rparr>) 7)"

definition l2_after_aging :: Kernel where
  "l2_after_aging = snd (projr (CheckAging (l2_after_second\<lparr>totalTicks := 1500\<rparr>) 6))"

subsection \<open>A small disk used as an example\<close>

text \<open>
  An allocator with the contract of the specification, for the examples: it takes the
  lowest free sectors, one for every 128 bytes, and charges the size of the data plus
  one sector for the header; when the free map does not have that many free sectors it
  charges nothing and leaves the map as it was.
\<close>

fun takeSectors :: "nat \<Rightarrow> bool list \<Rightarrow> int list \<times> bool list" where
  "takeSectors 0 freeMap = ([], freeMap)"
| "takeSectors (Suc n) freeMap =
     (let (s, freeMap1) = FindAndSet freeMap;
          (rest, freeMap2) = takeSectors n freeMap1
      in (s # rest, freeMap2))"

definition example_Allocate :: "bool list \<Rightarrow> int \<Rightarrow> int \<times> bool list \<times> FileHeader" where
  "example_Allocate freeMap sizeBytes =
     (let n = nat ((sizeBytes + 127) div 128)
      in if length (filter Not freeMap) < n
         then (0, freeMap, \<lparr>numBytes = sizeBytes, dataSectors = []\<rparr>)
         else let (secs, freeMap') = takeSectors n freeMap
              in (sizeBytes + 128, freeMap', \<lparr>numBytes = sizeBytes, dataSectors = secs\<rparr>))"

definition example_env :: Environment where
  "example_env = \<lparr>DirectoryFileSize = 128, Allocate = example_Allocate\<rparr>"

definition unusedEntry :: DirectoryEntry where
  "unusedEntry = \<lparr>inUse = False, name = [], sector = 0, isDir = False\<rparr>"

text \<open>
  Sixteen sectors. The root directory holds the directory \<open>a\<close> (header in sector 5, data
  in sector 6), and \<open>a\<close> holds the file \<open>b\<close> (header in sector 9, data in sectors 10 and
  11). Every directory has two slots. The array at address 0 holds the path handed to
  an operation.
\<close>

definition example_fs :: "string \<Rightarrow> FileSystem" where
  "example_fs path =
     \<lparr>headers = (\<lambda>_. \<lparr>numBytes = 0, dataSectors = []\<rparr>)
        (0 := \<lparr>numBytes = 2, dataSectors = [2]\<rparr>,
         1 := \<lparr>numBytes = 128, dataSectors = [3]\<rparr>,
         5 := \<lparr>numBytes = 128, dataSectors = [6]\<rparr>,
         9 := \<lparr>numBytes = 200, dataSectors = [10, 11]\<rparr>),
      tables = (\<lambda>_. [unusedEntry, unusedEntry])
        (1 := [\<lparr>inUse = True, name = ''a'', sector = 5, isDir = True\<rparr>, unusedEntry],
         5 := [\<lparr>inUse = True, name = ''b'', sector = 9, isDir = False\<rparr>, unusedEntry]),
      freeMapData = [True, True, True, True, False, True, True, False,
                     False, True, True, True, False, False, False, False],
      diskWrites = [], liveFiles = {}, nextFile = 0,
      openFileTable = (\<lambda>_. None), openFileTableTop = 0,
      buffers = (\<lambda>_. [])(0 := path), stackTop = 1\<rparr>"

subsection \<open>Notions used to state the properties of Remove\<close>

text \<open>
  Path resolution as a function of the directory tables alone: the sector of the parent
  directory and the terminal name, or nothing.
\<close>

function resolveLoop ::
  "(int \<Rightarrow> DirectoryEntry list) \<Rightarrow> string \<Rightarrow> string \<Rightarrow> int \<Rightarrow> (int \<times> string) option" where
  "resolveLoop T curCut rest cur =
     (case strtok rest of
        Some (nextCut, rest') \<Rightarrow>
          (let s = Directory_Find (T cur) curCut
           in if s = -1 then None else resolveLoop T nextCut rest' s)
      | None \<Rightarrow> Some (cur, curCut))"
  by pat_completeness auto
termination
proof (relation "measure (\<lambda>(T, curCut, rest, cur). length rest)")
  show "wf (measure (\<lambda>(T, curCut, rest, cur). length rest))"
    by (rule wf_measure)
next
  fix T :: "int \<Rightarrow> DirectoryEntry list" and curCut rest :: string and cur xa :: int
    and x2 :: "string \<times> string" and x y :: string
  assume "strtok rest = Some x2" and "(x, y) = x2"
  then have "strtok rest = Some (x, y)" by simp
  then have "length y < length rest" by (rule strtok_shorter)
  then show "((T, x, y, xa), (T, curCut, rest, cur))
             \<in> measure (\<lambda>(T, curCut, rest, cur). length rest)"
    by simp
qed

declare resolveLoop.simps [simp del]

definition resolve :: "(int \<Rightarrow> DirectoryEntry list) \<Rightarrow> string \<Rightarrow> (int \<times> string) option" where
  "resolve T path =
     (case strtok path of
        None \<Rightarrow> None
      | Some (curCut, rest) \<Rightarrow> resolveLoop T curCut rest DirectorySector)"

text \<open>
  The invariant of the specification on directories: no two entries in use have the
  same name. And the only change \<open>Remove\<close> makes to a table: some entries are no longer
  in use.
\<close>

definition uniqueNames :: "DirectoryEntry list \<Rightarrow> bool" where
  "uniqueNames t \<longleftrightarrow> distinct (map name (filter inUse t))"

definition cleared :: "DirectoryEntry list \<Rightarrow> DirectoryEntry list \<Rightarrow> bool" where
  "cleared t t' \<longleftrightarrow> list_all2 (\<lambda>e e'. e' = e \<or> e' = e\<lparr>inUse := False\<rparr>) t t'"

text \<open>
  The loop of \<open>Remove\<close> in the words of the specification: for every entry in use of the
  target directory, in the order of the table, recurse on the string
  \<open>path + "/" + childName\<close>, held in the array \<open>tarPathName\<close>.
\<close>

fun removeEveryChild_spec ::
  "(nat \<Rightarrow> FileSystem \<Rightarrow> (fs_error + bool) \<times> FileSystem) \<Rightarrow> nat \<Rightarrow> string \<Rightarrow>
   DirectoryEntry list \<Rightarrow> FileSystem \<Rightarrow> fs_error option \<times> FileSystem" where
  "removeEveryChild_spec rm tarPathName path [] st = (None, st)"
| "removeEveryChild_spec rm tarPathName path (e # es) st =
     (if inUse e
      then if length (path @ ''/'' @ name e) \<ge> 1000 then (Some BufferOverflow, st)
           else
             case rm tarPathName
                    (st\<lparr>buffers := (buffers st)(tarPathName := path @ ''/'' @ name e)\<rparr>) of
               (Inl err, st2) \<Rightarrow> (Some err, st2)
             | (Inr removed, st2) \<Rightarrow> removeEveryChild_spec rm tarPathName path es st2
      else removeEveryChild_spec rm tarPathName path es st)"

text \<open>Everything but the live files, the allocation counter and the array \<open>nameBuf\<close>.\<close>

definition sameButResolution :: "nat \<Rightarrow> FileSystem \<Rightarrow> FileSystem \<Rightarrow> bool" where
  "sameButResolution nameBuf st st' \<longleftrightarrow>
     headers st' = headers st \<and> tables st' = tables st \<and>
     freeMapData st' = freeMapData st \<and> diskWrites st' = diskWrites st \<and>
     openFileTable st' = openFileTable st \<and> openFileTableTop st' = openFileTableTop st \<and>
     stackTop st' = stackTop st \<and> (\<forall>a. a \<noteq> nameBuf \<longrightarrow> buffers st' a = buffers st a)"

text \<open>
  A procedure keeps to its frame when it returns with the stack where it was and with
  every array below the stack top unchanged.
\<close>

definition keepsFrame :: "(nat \<Rightarrow> FileSystem \<Rightarrow> (fs_error + bool) \<times> FileSystem) \<Rightarrow> bool" where
  "keepsFrame rm \<longleftrightarrow>
     (\<forall>p st. stackTop (snd (rm p st)) = stackTop st \<and>
             (\<forall>a < stackTop st. buffers (snd (rm p st)) a = buffers st a))"

text \<open>
  \<open>Remove\<close> writes no header, and what it does to a directory is to clear entries.
\<close>

definition onlyClears :: "(nat \<Rightarrow> FileSystem \<Rightarrow> (fs_error + bool) \<times> FileSystem) \<Rightarrow> bool" where
  "onlyClears rm \<longleftrightarrow>
     (\<forall>p st. headers (snd (rm p st)) = headers st \<and>
             (\<forall>k. cleared (tables st k) (tables (snd (rm p st)) k)))"


text \<open>
  The directories of a disk form a hierarchy when every entry in use has a name of one
  path component (not empty, no slash) and a sector other than \<open>-1\<close>, and when the file
  an entry names lies deeper than the directory that holds the entry, by some rank
  \<open>depth\<close> of the sectors. \<open>Create\<close> only makes such entries: the name it adds is a token
  of \<open>strtok\<close> and the sector is fresh.
\<close>

definition validName :: "string \<Rightarrow> bool" where
  "validName n \<longleftrightarrow> n \<noteq> [] \<and> CHR ''/'' \<notin> set n"

definition hierarchy :: "(int \<Rightarrow> nat) \<Rightarrow> (int \<Rightarrow> DirectoryEntry list) \<Rightarrow> bool" where
  "hierarchy depth T \<longleftrightarrow>
     (\<forall>k. \<forall>e \<in> set (T k).
        inUse e \<longrightarrow> validName (name e) \<and> sector e \<noteq> -1 \<and> depth k < depth (sector e))"

section \<open>Properties of the scheduler\<close>

subsection \<open>Facts about the sorted queues and the setters\<close>

lemma SortedInsert_cong_keys:
  "(\<And>a b. cmp (th a) (th b) = cmp (th' a) (th' b)) \<Longrightarrow>
   SortedInsert cmp th x q = SortedInsert cmp th' x q"
  by (induction q) auto

lemma SortedInsert_burst_status [simp]:
  "SortedInsert burstCmp (th(t := (th t)\<lparr>status := s\<rparr>)) x q = SortedInsert burstCmp th x q"
  by (rule SortedInsert_cong_keys) (simp add: burstCmp_def)

lemma SortedInsert_burst_priority [simp]:
  "SortedInsert burstCmp (th(t := (th t)\<lparr>priority := s\<rparr>)) x q = SortedInsert burstCmp th x q"
  by (rule SortedInsert_cong_keys) (simp add: burstCmp_def)

lemma SortedInsert_priority_status [simp]:
  "SortedInsert priorityCmp (th(t := (th t)\<lparr>status := s\<rparr>)) x q =
   SortedInsert priorityCmp th x q"
  by (rule SortedInsert_cong_keys) (simp add: priorityCmp_def)

subsection \<open>Admission\<close>

text \<open>
  Claim C2. Called with interrupts off for a thread \<open>t\<close> that is not yet in the queue of
  its priority band, \<open>ReadyToRun\<close> succeeds; it sets the status of \<open>t\<close> to READY,
  inserts \<open>t\<close> into L1 when its priority is in 100..149, into L2 when it is in 50..99
  and appends it to L3 otherwise, leaving the other two queues alone, and stamps
  \<open>startWaitTime\<close> with the total tick count. The running thread is asked to yield
  exactly when \<open>t\<close> went into L1, the running thread has a priority in 100..149 and
  another ID, and the burst estimate of \<open>t\<close> is strictly less than
  \<open>0.5 * (userTicks - startTime) + 0.5 * burstTime\<close> of the running thread.
\<close>

theorem ReadyToRun_admission:
  assumes off: "interruptLevel k = IntOff"
    and fresh: "t \<notin> set (if 100 \<le> priority (threads k t) \<and> priority (threads k t) \<le> 149
                          then L1Queue k
                          else if 50 \<le> priority (threads k t) \<and> priority (threads k t) \<le> 99
                          then L2Queue k else readyList k)"
  shows "\<exists>k'. ReadyToRun k t = Inr k' \<and>
      status (threads k' t) = READY \<and>
      startWaitTime (threads k' t) = totalTicks k \<and>
      (let p = priority (threads k t) in
        if 100 \<le> p \<and> p \<le> 149
        then L1Queue k' = SortedInsert burstCmp (threads k) t (L1Queue k) \<and>
             L2Queue k' = L2Queue k \<and> readyList k' = readyList k
        else if 50 \<le> p \<and> p \<le> 99
        then L2Queue k' = SortedInsert priorityCmp (threads k) t (L2Queue k) \<and>
             L1Queue k' = L1Queue k \<and> readyList k' = readyList k
        else readyList k' = readyList k @ [t] \<and>
             L1Queue k' = L1Queue k \<and> L2Queue k' = L2Queue k) \<and>
      (let p = priority (threads k t); c = threads k (currentThread k) in
        if 100 \<le> p \<and> p \<le> 149 \<and> 100 \<le> priority c \<and> priority c \<le> 149 \<and>
           ID c \<noteq> ID (threads k t) \<and>
           real_of_int (burstTime (threads k t)) <
             0.5 * real_of_int (userTicks k - startTime c) + 0.5 * real_of_int (burstTime c)
        then yieldCalls k' = yieldCalls k @ [currentThread k]
        else yieldCalls k' = yieldCalls k)"
  using off fresh
  by (auto simp: ReadyToRun_def Let_def Insert_def Append_def setStatus_def
      setStartWaitTime_def preemptSJF_def estBurst_def Yield_def)

text \<open>
  The scenario of the specification: the running thread 1 has burst estimate 50 and has
  run 10 user ticks, so its updated estimate is 30. Thread 2 arrives with burst 20 and
  thread 1 yields; thread 3 arrives with burst 40 and thread 1 does not.
\<close>

theorem ReadyToRun_admission_witness:
  "interruptLevel example_kernel = IntOff \<and> 2 \<notin> set (L1Queue example_kernel) \<and>
   estBurst example_kernel = 30 \<and>
   (\<exists>k'. ReadyToRun example_kernel 2 = Inr k' \<and> L1Queue k' = [2] \<and>
         startWaitTime (threads k' 2) = 700 \<and> yieldCalls k' = [1]) \<and>
   (\<exists>k'. ReadyToRun example_kernel 3 = Inr k' \<and> L1Queue k' = [3] \<and> yieldCalls k' = [])"
  using ReadyToRun_admission [of example_kernel 2] ReadyToRun_admission [of example_kernel 3]
  by (auto simp: example_kernel_def example_threads_def estBurst_def)

subsection \<open>Aging\<close>

lemma preemptSJF_fields [simp]:
  "threads (preemptSJF k t) = threads k"
  "L1Queue (preemptSJF k t) = L1Queue k"
  "L2Queue (preemptSJF k t) = L2Queue k"
  "readyList (preemptSJF k t) = readyList k"
  "totalTicks (preemptSJF k t) = totalTicks k"
  by (simp_all add: preemptSJF_def Yield_def)

lemma preemptSJF_yieldCalls:
  "yieldCalls (preemptSJF k t) =
     (if 100 \<le> priority (threads k (currentThread k)) \<and>
         priority (threads k (currentThread k)) \<le> 149 \<and>
         ID (threads k (currentThread k)) \<noteq> ID (threads k t) \<and>
         real_of_int (burstTime (threads k t)) <
           0.5 * real_of_int (userTicks k - startTime (threads k (currentThread k))) +
           0.5 * real_of_int (burstTime (threads k (currentThread k)))
      then yieldCalls k @ [currentThread k] else yieldCalls k)"
  by (simp add: preemptSJF_def Yield_def estBurst_def Let_def)

lemma setters_fields [simp]:
  "L1Queue (setPriority k t p) = L1Queue k"
  "L2Queue (setPriority k t p) = L2Queue k"
  "readyList (setPriority k t p) = readyList k"
  "yieldCalls (setPriority k t p) = yieldCalls k"
  "totalTicks (setPriority k t p) = totalTicks k"
  "userTicks (setPriority k t p) = userTicks k"
  "currentThread (setPriority k t p) = currentThread k"
  "threads (setPriority k t p) = (threads k)(t := (threads k t)\<lparr>priority := p\<rparr>)"
  "L1Queue (setStartWaitTime k t w) = L1Queue k"
  "L2Queue (setStartWaitTime k t w) = L2Queue k"
  "readyList (setStartWaitTime k t w) = readyList k"
  "yieldCalls (setStartWaitTime k t w) = yieldCalls k"
  "threads (setStartWaitTime k t w) = (threads k)(t := (threads k t)\<lparr>startWaitTime := w\<rparr>)"
  by (simp_all add: setPriority_def setStartWaitTime_def)

lemma newPriority_min:
  "(if p + 10 > 149 then 149 else p + 10) = min (p + 10) (149::int)"
  by (simp add: min_def)

lemma CheckAging_not_due:
  "\<not> (status (threads k t) = READY \<and> totalTicks k - startWaitTime (threads k t) \<ge> 1500) \<Longrightarrow>
   CheckAging k t = Inr (False, k)"
proof -
  assume "\<not> (status (threads k t) = READY \<and> totalTicks k - startWaitTime (threads k t) \<ge> 1500)"
  then have a: "(status (threads k t) = READY \<and>
                 totalTicks k - startWaitTime (threads k t) \<ge> 1500) = False"
    by simp
  show ?thesis unfolding CheckAging_def Let_def a by simp
qed

lemma CheckAging_L1:
  assumes "status (threads k t) = READY" "totalTicks k - startWaitTime (threads k t) \<ge> 1500"
    and "new = min (priority (threads k t) + 10) 149" "100 \<le> new" "new < 110"
    and "t \<notin> set (L1Queue k)"
  shows "CheckAging k t =
     Inr (True, setStartWaitTime (preemptSJF ((setPriority k t new)
            \<lparr>L2Queue := remove1 t (L2Queue k),
             L1Queue := SortedInsert burstCmp (threads k) t (L1Queue k)\<rparr>) t) t (totalTicks k))"
proof -
  have k2: "(if t \<in> set (L2Queue (setPriority k t new))
        then (setPriority k t new)\<lparr>L2Queue := remove1 t (L2Queue (setPriority k t new))\<rparr>
        else setPriority k t new) = (setPriority k t new)\<lparr>L2Queue := remove1 t (L2Queue k)\<rparr>"
    by (simp add: remove1_idem)
  show ?thesis
    unfolding CheckAging_def Let_def newPriority_min assms(3)[symmetric] k2
    using assms(1,2,4,5,6) by (simp add: Insert_def)
qed

lemma CheckAging_L2:
  assumes "status (threads k t) = READY" "totalTicks k - startWaitTime (threads k t) \<ge> 1500"
    and "new = min (priority (threads k t) + 10) 149" "50 \<le> new" "new < 60"
    and "t \<in> set (readyList k)" "t \<notin> set (L2Queue k)"
  shows "CheckAging k t =
     Inr (False, setStartWaitTime ((setPriority k t new)
            \<lparr>readyList := remove1 t (readyList k),
             L2Queue := SortedInsert priorityCmp (threads (setPriority k t new)) t (L2Queue k)\<rparr>)
              t (totalTicks k))"
  unfolding CheckAging_def Let_def newPriority_min assms(3)[symmetric]
  using assms(1,2,4,5,6,7) by (simp add: Insert_def Remove_item_def)

lemma CheckAging_stay:
  assumes "status (threads k t) = READY" "totalTicks k - startWaitTime (threads k t) \<ge> 1500"
    and "new = min (priority (threads k t) + 10) 149"
    and "\<not> (100 \<le> new \<and> new < 110)" "\<not> (50 \<le> new \<and> new < 60)"
  shows "CheckAging k t = Inr (False, setStartWaitTime (setPriority k t new) t (totalTicks k))"
proof -
  have a: "(100 \<le> new \<and> new < 110) = False" "(50 \<le> new \<and> new < 60) = False"
    using assms(4,5) by simp_all
  show ?thesis
    unfolding CheckAging_def Let_def newPriority_min assms(3)[symmetric] a
    using assms(1,2) by simp
qed

text \<open>
  Claim C3. Let \<open>t\<close> be a READY thread and \<open>new\<close> its priority plus 10, clamped to 149.
  If \<open>t\<close> has waited less than 1500 ticks, \<open>CheckAging\<close> changes nothing and returns
  false. Otherwise the priority of \<open>t\<close> becomes \<open>new\<close> and its \<open>startWaitTime\<close> the
  current tick, no other thread changes, and
  \<^item> when \<open>new\<close> is in [100,110), \<open>t\<close> is removed from L2 and inserted into L1, and
    the running thread is asked to yield by the same test as in \<open>ReadyToRun\<close>;
  \<^item> when \<open>new\<close> is in [50,60), \<open>t\<close> is removed from L3 and inserted into L2, and
    nobody is asked to yield;
  \<^item> otherwise the queues stay as they are.
  The two hypotheses on queue membership are the assertions of the list library: the
  thread that moves is not yet in the queue it moves to, and a thread that leaves L3 is
  in L3.
\<close>

theorem CheckAging_spec:
  assumes ready: "status (threads k t) = READY"
    and l1: "100 \<le> min (priority (threads k t) + 10) 149 \<and>
             min (priority (threads k t) + 10) 149 < 110 \<Longrightarrow> t \<notin> set (L1Queue k)"
    and l2: "50 \<le> min (priority (threads k t) + 10) 149 \<and>
             min (priority (threads k t) + 10) 149 < 60 \<Longrightarrow>
             t \<in> set (readyList k) \<and> t \<notin> set (L2Queue k)"
  shows "if totalTicks k - startWaitTime (threads k t) \<ge> 1500
         then \<exists>k'. CheckAging k t =
                    Inr (100 \<le> min (priority (threads k t) + 10) 149 \<and>
                         min (priority (threads k t) + 10) 149 < 110, k') \<and>
           (let new = min (priority (threads k t) + 10) 149;
                c = threads k (currentThread k) in
            threads k' = (threads k)(t := (threads k t)\<lparr>priority := new,
                                                       startWaitTime := totalTicks k\<rparr>) \<and>
            (if 100 \<le> new \<and> new < 110
             then L2Queue k' = remove1 t (L2Queue k) \<and>
                  L1Queue k' = SortedInsert burstCmp (threads k) t (L1Queue k) \<and>
                  readyList k' = readyList k \<and>
                  (if 100 \<le> priority c \<and> priority c \<le> 149 \<and> ID c \<noteq> ID (threads k t) \<and>
                      real_of_int (burstTime (threads k t)) <
                        0.5 * real_of_int (userTicks k - startTime c) +
                        0.5 * real_of_int (burstTime c)
                   then yieldCalls k' = yieldCalls k @ [currentThread k]
                   else yieldCalls k' = yieldCalls k)
             else if 50 \<le> new \<and> new < 60
             then readyList k' = remove1 t (readyList k) \<and>
                  L2Queue k' = SortedInsert priorityCmp (threads k') t (L2Queue k) \<and>
                  L1Queue k' = L1Queue k \<and> yieldCalls k' = yieldCalls k
             else L1Queue k' = L1Queue k \<and> L2Queue k' = L2Queue k \<and>
                  readyList k' = readyList k \<and> yieldCalls k' = yieldCalls k))
         else CheckAging k t = Inr (False, k)"
proof (cases "totalTicks k - startWaitTime (threads k t) \<ge> 1500")
  case False
  then show ?thesis by (simp add: CheckAging_not_due)
next
  case True
  define new where "new = min (priority (threads k t) + 10) 149"
  consider (L1) "100 \<le> new" "new < 110" | (L2) "50 \<le> new" "new < 60"
    | (stay) "\<not> (100 \<le> new \<and> new < 110)" "\<not> (50 \<le> new \<and> new < 60)"
    by linarith
  then show ?thesis
  proof cases
    case L1
    then have nin: "t \<notin> set (L1Queue k)" using l1 by (simp add: new_def)
    have yc: "yieldCalls (preemptSJF ((setPriority k t new)
            \<lparr>L2Queue := remove1 t (L2Queue k),
             L1Queue := SortedInsert burstCmp (threads k) t (L1Queue k)\<rparr>) t) =
        (if 100 \<le> priority (threads k (currentThread k)) \<and>
            priority (threads k (currentThread k)) \<le> 149 \<and>
            ID (threads k (currentThread k)) \<noteq> ID (threads k t) \<and>
            real_of_int (burstTime (threads k t)) <
              0.5 * real_of_int (userTicks k - startTime (threads k (currentThread k))) +
              0.5 * real_of_int (burstTime (threads k (currentThread k)))
         then yieldCalls k @ [currentThread k] else yieldCalls k)"
      using L1 by (cases "currentThread k = t") (simp_all add: preemptSJF_yieldCalls)
    have th: "threads (setStartWaitTime (preemptSJF ((setPriority k t new)
            \<lparr>L2Queue := remove1 t (L2Queue k),
             L1Queue := SortedInsert burstCmp (threads k) t (L1Queue k)\<rparr>) t) t (totalTicks k)) =
         (threads k)(t := (threads k t)\<lparr>priority := new, startWaitTime := totalTicks k\<rparr>)"
      by (simp add: fun_eq_iff)
    show ?thesis
      using True L1 th yc
      by (simp add: CheckAging_L1 [OF ready True new_def L1 nin] Let_def flip: new_def)
  next
    case L2
    then have mem: "t \<in> set (readyList k)" "t \<notin> set (L2Queue k)"
      using l2 by (simp_all add: new_def)
    have n1: "\<not> (100 \<le> new \<and> new < 110)" using L2 by simp
    have th: "threads (setStartWaitTime ((setPriority k t new)
            \<lparr>readyList := remove1 t (readyList k),
             L2Queue := SortedInsert priorityCmp (threads (setPriority k t new)) t (L2Queue k)\<rparr>)
              t (totalTicks k)) =
         (threads k)(t := (threads k t)\<lparr>priority := new, startWaitTime := totalTicks k\<rparr>)"
      by (simp add: fun_eq_iff)
    have ins: "SortedInsert priorityCmp
          ((threads k)(t := (threads k t)\<lparr>priority := new, startWaitTime := totalTicks k\<rparr>))
          t (L2Queue k) =
        SortedInsert priorityCmp (threads (setPriority k t new)) t (L2Queue k)"
      by (rule SortedInsert_cong_keys) (simp add: priorityCmp_def)
    show ?thesis
      using True L2 n1 th ins
      by (simp add: CheckAging_L2 [OF ready True new_def L2 mem] Let_def flip: new_def)
  next
    case stay
    have th: "threads (setStartWaitTime (setPriority k t new) t (totalTicks k)) =
         (threads k)(t := (threads k t)\<lparr>priority := new, startWaitTime := totalTicks k\<rparr>)"
      by (simp add: fun_eq_iff)
    have a: "(100 \<le> new \<and> new < 110) = False" "(50 \<le> new \<and> new < 60) = False"
      using stay by simp_all
    show ?thesis
      using True th
      by (simp add: CheckAging_stay [OF ready True new_def stay] Let_def a flip: new_def)
  qed
qed

text \<open>
  Thread 4 ages from priority 95 to 105, moves from L2 to L1 and preempts the running
  thread; thread 5 ages from 45 to 55 and moves from L3 to L2.
\<close>

theorem CheckAging_spec_witness:
  "status (threads aging_kernel 4) = READY \<and> 4 \<notin> set (L1Queue aging_kernel) \<and>
   (\<exists>k'. CheckAging aging_kernel 4 = Inr (True, k') \<and> priority (threads k' 4) = 105 \<and>
      startWaitTime (threads k' 4) = 1500 \<and> L1Queue k' = [4] \<and> L2Queue k' = [] \<and>
      yieldCalls k' = [1]) \<and>
   status (threads aging_kernel 5) = READY \<and> 5 \<in> set (readyList aging_kernel) \<and>
   5 \<notin> set (L2Queue aging_kernel) \<and>
   (\<exists>k'. CheckAging aging_kernel 5 = Inr (False, k') \<and> priority (threads k' 5) = 55 \<and>
      startWaitTime (threads k' 5) = 1500 \<and> readyList k' = [] \<and> L2Queue k' = [4, 5] \<and>
      yieldCalls k' = [])"
  using CheckAging_spec [of aging_kernel 4] CheckAging_spec [of aging_kernel 5]
  by (auto simp: aging_kernel_def example_threads_def priorityCmp_def)

subsection \<open>Selection\<close>

lemma set_SortedInsert [simp]: "set (SortedInsert cmp th x q) = insert x (set q)"
  by (induction q) auto

lemma SortedInsert_stable:
  "SortedInsert cmp th x q =
     takeWhile (\<lambda>y. \<not> cmp (th x) (th y) < 0) q @ x #
     dropWhile (\<lambda>y. \<not> cmp (th x) (th y) < 0) q"
  by (induction q) auto

lemma SortedInsert_burst_sorted:
  "sorted_wrt (\<lambda>a b. burstTime (th a) \<le> burstTime (th b)) q \<Longrightarrow>
   sorted_wrt (\<lambda>a b. burstTime (th a) \<le> burstTime (th b)) (SortedInsert burstCmp th x q)"
  by (induction q) (auto simp: burstCmp_def Let_def split: if_splits)

lemma SortedInsert_priority_sorted:
  "sorted_wrt (\<lambda>a b. priority (th a) \<ge> priority (th b)) q \<Longrightarrow>
   sorted_wrt (\<lambda>a b. priority (th a) \<ge> priority (th b)) (SortedInsert priorityCmp th x q)"
  by (induction q) (auto simp: priorityCmp_def Let_def split: if_splits)

text \<open>
  With interrupts off, \<open>FindNextToRun\<close> returns and removes the front of L1 if L1 is not
  empty, else the front of L2, else the front of L3, else it returns null.
\<close>

lemma FindNextToRun_order:
  assumes off: "interruptLevel k = IntOff"
  shows "(L1Queue k \<noteq> [] \<longrightarrow>
            FindNextToRun k = Inr (Some (hd (L1Queue k)), k\<lparr>L1Queue := tl (L1Queue k)\<rparr>)) \<and>
         (L1Queue k = [] \<and> L2Queue k \<noteq> [] \<longrightarrow>
            FindNextToRun k = Inr (Some (hd (L2Queue k)), k\<lparr>L2Queue := tl (L2Queue k)\<rparr>)) \<and>
         (L1Queue k = [] \<and> L2Queue k = [] \<and> readyList k \<noteq> [] \<longrightarrow>
            FindNextToRun k = Inr (Some (hd (readyList k)), k\<lparr>readyList := tl (readyList k)\<rparr>)) \<and>
         (L1Queue k = [] \<and> L2Queue k = [] \<and> readyList k = [] \<longrightarrow>
            FindNextToRun k = Inr (None, k))"
proof -
  have r: "FindNextToRun k =
     (case L1Queue k of
             x # xs \<Rightarrow> Inr (Some x, k\<lparr>L1Queue := xs\<rparr>)
           | [] \<Rightarrow>
              (case L2Queue k of
                 x # xs \<Rightarrow> Inr (Some x, k\<lparr>L2Queue := xs\<rparr>)
               | [] \<Rightarrow>
                  (case readyList k of
                     x # xs \<Rightarrow> Inr (Some x, k\<lparr>readyList := xs\<rparr>)
                   | [] \<Rightarrow> Inr (None, k))))"
    using off by (simp add: FindNextToRun_def)
  have a: "L1Queue k \<noteq> [] \<longrightarrow>
            FindNextToRun k = Inr (Some (hd (L1Queue k)), k\<lparr>L1Queue := tl (L1Queue k)\<rparr>)"
    unfolding r by (cases "L1Queue k") simp_all
  have b: "L1Queue k = [] \<and> L2Queue k \<noteq> [] \<longrightarrow>
            FindNextToRun k = Inr (Some (hd (L2Queue k)), k\<lparr>L2Queue := tl (L2Queue k)\<rparr>)"
    unfolding r by (cases "L2Queue k") simp_all
  have c: "L1Queue k = [] \<and> L2Queue k = [] \<and> readyList k \<noteq> [] \<longrightarrow>
            FindNextToRun k = Inr (Some (hd (readyList k)), k\<lparr>readyList := tl (readyList k)\<rparr>)"
    unfolding r by (cases "readyList k") simp_all
  have d: "L1Queue k = [] \<and> L2Queue k = [] \<and> readyList k = [] \<longrightarrow>
            FindNextToRun k = Inr (None, k)"
    unfolding r by simp
  from a b c d show ?thesis by simp
qed

text \<open>
  The order of L1 is kept. No operation of the scheduler changes the burst of a thread,
  and a thread enters L1 by sorted insertion only, so a queue L1 in ascending order of
  burst stays in that order under \<open>ReadyToRun\<close>, \<open>CheckAging\<close> and \<open>FindNextToRun\<close>,
  and its front has the minimum burst.
\<close>

lemma burstTime_setStatus [simp]:
  "burstTime (threads (setStatus k t v) a) = burstTime (threads k a)"
  by (simp add: setStatus_def)

lemma burstTime_setPriority [simp]:
  "burstTime (threads (setPriority k t v) a) = burstTime (threads k a)"
  by (simp add: setPriority_def)

lemma burstTime_setStartWaitTime [simp]:
  "burstTime (threads (setStartWaitTime k t v) a) = burstTime (threads k a)"
  by (simp add: setStartWaitTime_def)

lemma L1Queue_set [simp]:
  "L1Queue (setStatus k t s) = L1Queue k"
  "L1Queue (setPriority k t v) = L1Queue k"
  "L1Queue (setStartWaitTime k t w) = L1Queue k"
  by (simp_all add: setStatus_def setPriority_def setStartWaitTime_def)

lemma preemptSJF_L1 [simp]:
  "L1Queue (preemptSJF k t) = L1Queue k"
  "burstTime (threads (preemptSJF k t) a) = burstTime (threads k a)"
  by (simp_all add: preemptSJF_def Yield_def)

lemma ReadyToRun_keeps_L1_sorted:
  assumes run: "ReadyToRun k t = Inr k'"
    and srt: "sorted_wrt (\<lambda>a b. burstTime (threads k a) \<le> burstTime (threads k b)) (L1Queue k)"
  shows "sorted_wrt (\<lambda>a b. burstTime (threads k' a) \<le> burstTime (threads k' b)) (L1Queue k') \<and>
         (\<forall>a. burstTime (threads k' a) = burstTime (threads k a))"
proof -
  have s: "sorted_wrt (\<lambda>a b. burstTime (threads k a) \<le> burstTime (threads k b))
             (SortedInsert burstCmp (threads (setStatus k t READY)) t (L1Queue k))"
    using SortedInsert_burst_sorted [of "threads (setStatus k t READY)" "L1Queue k" t] srt
    by simp
  have b: "burstTime (threads k' a) = burstTime (threads k a)" for a
    using run
    by (auto simp: ReadyToRun_def Let_def Insert_def Append_def split: if_splits sum.splits)
  have q: "L1Queue k' = L1Queue k \<or>
           L1Queue k' = SortedInsert burstCmp (threads (setStatus k t READY)) t (L1Queue k)"
    using run
    by (auto simp: ReadyToRun_def Let_def Insert_def Append_def split: if_splits sum.splits)
  from q s srt show ?thesis by (auto simp only: b)
qed

lemma CheckAging_keeps_L1_sorted:
  assumes run: "CheckAging k t = Inr (r, k')"
    and srt: "sorted_wrt (\<lambda>a b. burstTime (threads k a) \<le> burstTime (threads k b)) (L1Queue k)"
  shows "sorted_wrt (\<lambda>a b. burstTime (threads k' a) \<le> burstTime (threads k' b)) (L1Queue k') \<and>
         (\<forall>a. burstTime (threads k' a) = burstTime (threads k a))"
proof -
  define k1 where "k1 = setPriority k t
      (if priority (threads k t) + 10 > 149 then 149 else priority (threads k t) + 10)"
  define k2 where "k2 = (if t \<in> set (L2Queue k1)
                          then k1\<lparr>L2Queue := remove1 t (L2Queue k1)\<rparr> else k1)"
  have k1: "L1Queue k1 = L1Queue k" "\<And>a. burstTime (threads k1 a) = burstTime (threads k a)"
    by (simp_all add: k1_def)
  have k2: "L1Queue k2 = L1Queue k" "\<And>a. burstTime (threads k2 a) = burstTime (threads k a)"
    by (simp_all add: k2_def k1)
  have s: "sorted_wrt (\<lambda>a b. burstTime (threads k a) \<le> burstTime (threads k b))
             (SortedInsert burstCmp (threads k2) t (L1Queue k))"
    using SortedInsert_burst_sorted [of "threads k2" "L1Queue k" t] srt
    by (simp add: k2)
  have b: "burstTime (threads k' a) = burstTime (threads k a)" for a
    using run k1 k2
    unfolding CheckAging_def Let_def k1_def [symmetric] k2_def [symmetric]
    by (auto simp: Insert_def Remove_item_def split: if_splits sum.splits)
  have q: "L1Queue k' = L1Queue k \<or>
           L1Queue k' = SortedInsert burstCmp (threads k2) t (L1Queue k)"
    using run k1 k2
    unfolding CheckAging_def Let_def k1_def [symmetric] k2_def [symmetric]
    by (auto simp: Insert_def Remove_item_def split: if_splits sum.splits)
  from q s srt show ?thesis by (auto simp only: b)
qed

lemma FindNextToRun_L1_min_burst:
  assumes "interruptLevel k = IntOff" and "L1Queue k \<noteq> []"
    and "sorted_wrt (\<lambda>a b. burstTime (threads k a) \<le> burstTime (threads k b)) (L1Queue k)"
  shows "\<exists>x k'. FindNextToRun k = Inr (Some x, k') \<and> x = hd (L1Queue k) \<and>
           (\<forall>u \<in> set (L1Queue k). burstTime (threads k x) \<le> burstTime (threads k u)) \<and>
           L1Queue k' = tl (L1Queue k) \<and>
           sorted_wrt (\<lambda>a b. burstTime (threads k' a) \<le> burstTime (threads k' b)) (L1Queue k')"
  using assms by (cases "L1Queue k") (auto simp: FindNextToRun_def)

text \<open>
  The states of the scenario. Thread 6 (priority 75) becomes ready at tick 0 and
  thread 7 (priority 80) at tick 1000, so L2 is [7, 6]. At tick 1500 thread 6 has waited
  1500 ticks and \<open>CheckAging\<close> raises it to 85 where it stands in the queue.
\<close>

lemma l2_after_first_eq:
  "ReadyToRun l2_kernel 6 = Inr l2_after_first"
  "L2Queue l2_after_first = [6]" "L1Queue l2_after_first = []" "readyList l2_after_first = []"
  "interruptLevel l2_after_first = IntOff"
  "threads l2_after_first 7 = \<lparr>ID = 7, priority = 80, burstTime = 20, startTime = 0, startWaitTime = 0,
               status = JUST_CREATED\<rparr>"
  "threads l2_after_first 6 = \<lparr>ID = 6, priority = 75, burstTime = 20, startTime = 0, startWaitTime = 0,
               status = READY\<rparr>"
  by (simp_all add: l2_after_first_def ReadyToRun_def l2_kernel_def example_threads_def
      Let_def Insert_def setStatus_def setStartWaitTime_def)

lemma l2_after_second_eq:
  "ReadyToRun (l2_after_first\<lparr>totalTicks := 1000\<rparr>) 7 = Inr l2_after_second"
  "L2Queue l2_after_second = [7, 6]" "L1Queue l2_after_second = []"
  "readyList l2_after_second = []" "interruptLevel l2_after_second = IntOff"
  "threads l2_after_second 7 = \<lparr>ID = 7, priority = 80, burstTime = 20, startTime = 0,
               startWaitTime = 1000, status = READY\<rparr>"
  "threads l2_after_second 6 = \<lparr>ID = 6, priority = 75, burstTime = 20, startTime = 0,
               startWaitTime = 0, status = READY\<rparr>"
  by (simp_all add: l2_after_second_def ReadyToRun_def l2_after_first_eq
      Let_def Insert_def setStatus_def setStartWaitTime_def priorityCmp_def)

lemma l2_after_aging_eq:
  "CheckAging (l2_after_second\<lparr>totalTicks := 1500\<rparr>) 6 = Inr (False, l2_after_aging)"
  "L2Queue l2_after_aging = [7, 6]" "L1Queue l2_after_aging = []"
  "interruptLevel l2_after_aging = IntOff"
  "priority (threads l2_after_aging 7) = 80"
  "priority (threads l2_after_aging 6) = 85"
  "status (threads l2_after_aging 7) = READY"
  "status (threads l2_after_aging 6) = READY"
  by (simp_all add: l2_after_aging_def CheckAging_def l2_after_second_eq
      Let_def setPriority_def setStartWaitTime_def)

text \<open>
  Claim C6. The claim says that the thread \<open>FindNextToRun\<close> takes from L2 is the thread
  of maximum priority in L2. The code does not do that. L2 is a list sorted by
  \<open>priorityCmp\<close>, but \<open>CheckAging\<close> changes the priority of a thread that stands in L2
  with \<open>setPriority\<close> and leaves the thread where it is, unless the new priority reaches
  100. In the run below, \<open>ReadyToRun\<close> queues thread 6 (priority 75) at tick 0 and
  thread 7 (priority 80) at tick 1000. At tick 1500 \<open>CheckAging\<close> raises thread 6 to 85
  and leaves thread 7, which has waited 500 ticks, at 80. L1 is empty and L2 is [7, 6],
  both threads are ready, and \<open>FindNextToRun\<close> returns thread 7, of priority 80, while
  thread 6, of priority 85, stays in L2.
\<close>

theorem FindNextToRun_returns_lower_priority:
  "ReadyToRun l2_kernel 6 = Inr l2_after_first \<and>
   ReadyToRun (l2_after_first\<lparr>totalTicks := 1000\<rparr>) 7 = Inr l2_after_second \<and>
   CheckAging (l2_after_second\<lparr>totalTicks := 1500\<rparr>) 6 = Inr (False, l2_after_aging) \<and>
   CheckAging l2_after_aging 7 = Inr (False, l2_after_aging) \<and>
   L1Queue l2_after_aging = [] \<and> L2Queue l2_after_aging = [7, 6] \<and>
   status (threads l2_after_aging 7) = READY \<and> status (threads l2_after_aging 6) = READY \<and>
   priority (threads l2_after_aging 7) = 80 \<and> priority (threads l2_after_aging 6) = 85 \<and>
   FindNextToRun l2_after_aging = Inr (Some 7, l2_after_aging\<lparr>L2Queue := [6]\<rparr>)"
proof -
  have "totalTicks l2_after_aging = 1500" "startWaitTime (threads l2_after_aging 7) = 1000"
    by (simp_all add: l2_after_aging_def CheckAging_def l2_after_second_eq
      Let_def setPriority_def setStartWaitTime_def)
  then have "CheckAging l2_after_aging 7 = Inr (False, l2_after_aging)"
    by (simp add: CheckAging_not_due)
  moreover have "FindNextToRun l2_after_aging = Inr (Some 7, l2_after_aging\<lparr>L2Queue := [6]\<rparr>)"
    by (simp add: FindNextToRun_def l2_after_aging_eq)
  ultimately show ?thesis
    by (simp add: l2_after_first_eq l2_after_second_eq l2_after_aging_eq)
qed

section \<open>Properties of the file system\<close>

subsection \<open>What path resolution leaves alone\<close>

lemma deleteOpenFile_fields [simp]:
  "headers (deleteOpenFile st f) = headers st"
  "tables (deleteOpenFile st f) = tables st"
  "freeMapData (deleteOpenFile st f) = freeMapData st"
  "diskWrites (deleteOpenFile st f) = diskWrites st"
  "nextFile (deleteOpenFile st f) = nextFile st"
  "openFileTable (deleteOpenFile st f) = openFileTable st"
  "openFileTableTop (deleteOpenFile st f) = openFileTableTop st"
  "buffers (deleteOpenFile st f) = buffers st"
  "stackTop (deleteOpenFile st f) = stackTop st"
  by (cases f; simp)+

lemma deleteUnlessRoot_fields [simp]:
  "headers (deleteUnlessRoot st f) = headers st"
  "tables (deleteUnlessRoot st f) = tables st"
  "freeMapData (deleteUnlessRoot st f) = freeMapData st"
  "diskWrites (deleteUnlessRoot st f) = diskWrites st"
  "nextFile (deleteUnlessRoot st f) = nextFile st"
  "openFileTable (deleteUnlessRoot st f) = openFileTable st"
  "openFileTableTop (deleteUnlessRoot st f) = openFileTableTop st"
  "buffers (deleteUnlessRoot st f) = buffers st"
  "stackTop (deleteUnlessRoot st f) = stackTop st"
  by (simp_all add: deleteUnlessRoot_def)

lemma newOpenFile_fields [simp]:
  "headers (snd (newOpenFile st s)) = headers st"
  "tables (snd (newOpenFile st s)) = tables st"
  "freeMapData (snd (newOpenFile st s)) = freeMapData st"
  "diskWrites (snd (newOpenFile st s)) = diskWrites st"
  "openFileTable (snd (newOpenFile st s)) = openFileTable st"
  "openFileTableTop (snd (newOpenFile st s)) = openFileTableTop st"
  "buffers (snd (newOpenFile st s)) = buffers st"
  "stackTop (snd (newOpenFile st s)) = stackTop st"
  "nextFile (snd (newOpenFile st s)) = Suc (nextFile st)"
  "liveFiles (snd (newOpenFile st s)) = insert (nextFile st) (liveFiles st)"
  "fst (newOpenFile st s) = Opened (nextFile st) s"
  by (simp_all add: newOpenFile_def)

lemma FindSubDirectory_loop_same:
  "sameButResolution nameBuf st
     (snd (FindSubDirectory_loop curCut rest curDirFile curDirectory nameBuf st))"
proof (induction curCut rest curDirFile curDirectory nameBuf st
       rule: FindSubDirectory_loop.induct)
  case (1 curCut rest curDirFile curDirectory nameBuf st)
  show ?case
  proof (cases "strtok rest")
    case None
    then show ?thesis
      by (subst FindSubDirectory_loop.simps) (simp add: sameButResolution_def)
  next
    case (Some p)
    obtain nextCut rest' where p: "p = (nextCut, rest')" by (cases p)
    show ?thesis
    proof (cases "Directory_Find curDirectory curCut = -1")
      case True
      with Some p show ?thesis
        by (subst FindSubDirectory_loop.simps) (simp add: sameButResolution_def)
    next
      case False
      define st1 where "st1 = deleteUnlessRoot st curDirFile"
      define nf where "nf = newOpenFile st1 (Directory_Find curDirectory curCut)"
      have ih: "sameButResolution nameBuf (snd nf)
          (snd (FindSubDirectory_loop nextCut rest' (fst nf)
                  (tables (snd nf) (hdrSector (fst nf))) nameBuf (snd nf)))"
        using "1.IH" [OF Some p [symmetric] refl False st1_def nf_def, of "fst nf" "snd nf"]
        by simp
      have step: "FindSubDirectory_loop curCut rest curDirFile curDirectory nameBuf st =
          FindSubDirectory_loop nextCut rest' (fst nf)
                  (tables (snd nf) (hdrSector (fst nf))) nameBuf (snd nf)"
        using Some p False
        by (subst FindSubDirectory_loop.simps)
           (simp add: Let_def st1_def nf_def case_prod_beta)
      from ih show ?thesis
        unfolding step by (simp add: sameButResolution_def nf_def st1_def)
    qed
  qed
qed

lemma FindSubDirectory_same:
  "sameButResolution nameBuf st (snd (FindSubDirectory nameBuf st))"
proof (cases "strtok (buffers st nameBuf)")
  case None
  then show ?thesis by (simp add: FindSubDirectory_def sameButResolution_def)
next
  case (Some p)
  obtain c r where p: "p = (c, r)" by (cases p)
  define st0 where "st0 = st\<lparr>buffers := (buffers st)
      (nameBuf := takeWhile (\<lambda>c. c = CHR ''/'') (buffers st nameBuf) @ c)\<rparr>"
  have "sameButResolution nameBuf st0
          (snd (FindSubDirectory_loop c r DirectoryFile (tables st DirectorySector) nameBuf st0))"
    by (rule FindSubDirectory_loop_same)
  then have "sameButResolution nameBuf st
          (snd (FindSubDirectory_loop c r DirectoryFile (tables st DirectorySector) nameBuf st0))"
    by (simp add: sameButResolution_def st0_def)
  then show ?thesis
    using Some p by (simp add: FindSubDirectory_def st0_def)
qed

lemma enterFrame_fields [simp]:
  "headers (enterFrame st p n) = headers st"
  "tables (enterFrame st p n) = tables st"
  "freeMapData (enterFrame st p n) = freeMapData st"
  "diskWrites (enterFrame st p n) = diskWrites st"
  "liveFiles (enterFrame st p n) = liveFiles st"
  "nextFile (enterFrame st p n) = nextFile st"
  "openFileTable (enterFrame st p n) = openFileTable st"
  "openFileTableTop (enterFrame st p n) = openFileTableTop st"
  "stackTop (enterFrame st p n) = stackTop st + n"
  "buffers (enterFrame st p n) = (buffers st)(stackTop st := buffers st p)"
  by (simp_all add: enterFrame_def)

lemma leaveFrame_fields [simp]:
  "headers (leaveFrame st st') = headers st'"
  "tables (leaveFrame st st') = tables st'"
  "freeMapData (leaveFrame st st') = freeMapData st'"
  "diskWrites (leaveFrame st st') = diskWrites st'"
  "liveFiles (leaveFrame st st') = liveFiles st'"
  "nextFile (leaveFrame st st') = nextFile st'"
  "openFileTable (leaveFrame st st') = openFileTable st'"
  "openFileTableTop (leaveFrame st st') = openFileTableTop st'"
  "stackTop (leaveFrame st st') = stackTop st"
  "buffers (leaveFrame st st') = buffers st'"
  by (simp_all add: leaveFrame_def)

lemma FindSubDirectory_enterFrame_disk:
  "headers (snd (FindSubDirectory nameBuf (enterFrame st p n))) = headers st"
  "tables (snd (FindSubDirectory nameBuf (enterFrame st p n))) = tables st"
  "freeMapData (snd (FindSubDirectory nameBuf (enterFrame st p n))) = freeMapData st"
  "diskWrites (snd (FindSubDirectory nameBuf (enterFrame st p n))) = diskWrites st"
  "openFileTable (snd (FindSubDirectory nameBuf (enterFrame st p n))) = openFileTable st"
  "openFileTableTop (snd (FindSubDirectory nameBuf (enterFrame st p n))) = openFileTableTop st"
  using FindSubDirectory_same [of nameBuf "enterFrame st p n"]
  by (simp_all add: sameButResolution_def)

subsection \<open>Create\<close>

text \<open>
  \<open>Create\<close> written out with the results of path resolution named: \<open>createParent\<close> is
  the handle of the parent directory (or null), \<open>createResolved\<close> the state after the
  resolution, and \<open>createName\<close> the terminal name left in the local array.
\<close>

lemma Create_unfold:
  assumes "length (buffers st pathName) < 1000"
  shows "Create env pathName initialSize dir st =
     (let st1 = snd (FindSubDirectory (stackTop st) (enterFrame st pathName 1))
      in case fst (FindSubDirectory (stackTop st) (enterFrame st pathName 1)) of
           None \<Rightarrow> (Inr False, leaveFrame st st1)
         | Some curDirFile \<Rightarrow>
             let directory = tables st (hdrSector curDirFile);
                 nm = buffers st1 (stackTop st);
                 newSector = fst (FindAndSet (freeMapData st));
                 directory1 = snd (Directory_Add directory nm newSector dir);
                 alloc = Allocate env (snd (FindAndSet (freeMapData st)))
                           (if dir then DirectoryFileSize env else initialSize)
             in if Directory_Find directory nm = -1 \<and> newSector \<noteq> -1 \<and>
                   fst (Directory_Add directory nm newSector dir) \<and> 0 < fst alloc
                then (Inr True,
                      leaveFrame st (deleteUnlessRoot
                        (writeFreeMap
                           (writeDirectory (writeHeader st1 newSector (snd (snd alloc)))
                              curDirFile directory1)
                           (fst (snd alloc))) curDirFile))
                else (Inr False, leaveFrame st (deleteUnlessRoot st1 curDirFile)))"
  using assms
  by (simp add: Create_def Let_def case_prod_beta FindSubDirectory_enterFrame_disk not_less
           split: option.split)

text \<open>
  Claim C1. Whenever \<open>Create\<close> returns false, whatever the cause, the disk is what it was
  before the call: the headers, every directory and the free map are unchanged, and no
  write-back was made.
\<close>

theorem Create_failure_leaves_disk:
  assumes "fst (Create env pathName initialSize dir st) = Inr False"
  shows "headers (snd (Create env pathName initialSize dir st)) = headers st \<and>
         tables (snd (Create env pathName initialSize dir st)) = tables st \<and>
         freeMapData (snd (Create env pathName initialSize dir st)) = freeMapData st \<and>
         diskWrites (snd (Create env pathName initialSize dir st)) = diskWrites st"
proof (cases "length (buffers st pathName) < 1000")
  case False
  with assms show ?thesis by (simp add: Create_def)
next
  case True
  note unfold = Create_unfold [OF True, of env initialSize dir]
  show ?thesis
  proof (cases "fst (FindSubDirectory (stackTop st) (enterFrame st pathName 1))")
    case None
    then show ?thesis
      unfolding unfold by (simp add: Let_def FindSubDirectory_enterFrame_disk)
  next
    case (Some curDirFile)
    define st1 where "st1 = snd (FindSubDirectory (stackTop st) (enterFrame st pathName 1))"
    define ok where "ok \<longleftrightarrow>
        Directory_Find (tables st (hdrSector curDirFile)) (buffers st1 (stackTop st)) = -1 \<and>
        fst (FindAndSet (freeMapData st)) \<noteq> -1 \<and>
        fst (Directory_Add (tables st (hdrSector curDirFile)) (buffers st1 (stackTop st))
               (fst (FindAndSet (freeMapData st))) dir) \<and>
        0 < fst (Allocate env (snd (FindAndSet (freeMapData st)))
                   (if dir then DirectoryFileSize env else initialSize))"
    have res: "Create env pathName initialSize dir st =
        (if ok then (Inr True,
                      leaveFrame st (deleteUnlessRoot
                        (writeFreeMap
                           (writeDirectory (writeHeader st1 (fst (FindAndSet (freeMapData st)))
                              (snd (snd (Allocate env (snd (FindAndSet (freeMapData st)))
                                 (if dir then DirectoryFileSize env else initialSize)))))
                              curDirFile
                              (snd (Directory_Add (tables st (hdrSector curDirFile))
                                 (buffers st1 (stackTop st))
                                 (fst (FindAndSet (freeMapData st))) dir)))
                           (fst (snd (Allocate env (snd (FindAndSet (freeMapData st)))
                                 (if dir then DirectoryFileSize env else initialSize)))))
                        curDirFile))
         else (Inr False, leaveFrame st (deleteUnlessRoot st1 curDirFile)))"
      unfolding unfold Some ok_def st1_def by (simp add: Let_def)
    from assms have "\<not> ok" unfolding res by (cases ok) simp_all
    then show ?thesis
      unfolding res by (simp add: st1_def FindSubDirectory_enterFrame_disk)
  qed
qed

lemma firstFree_None: "firstFree m = None \<longleftrightarrow> (\<forall>b \<in> set m. b)"
  by (induction m) auto

lemma FindAndSet_full: "fst (FindAndSet m) = -1 \<longleftrightarrow> (\<forall>b \<in> set m. b)"
  by (auto simp: FindAndSet_def firstFree_None [symmetric] split: option.splits)

lemma firstUnused_None: "firstUnused t = None \<longleftrightarrow> (\<forall>e \<in> set t. inUse e)"
  by (induction t) auto

lemma FindIndex_Some:
  "FindIndex t nm = Some i \<Longrightarrow> i < length t \<and> inUse (t ! i) \<and> name (t ! i) = nm"
  by (induction t arbitrary: i) (auto split: if_splits)

lemma FindIndex_None: "FindIndex t nm = None \<longleftrightarrow> (\<forall>e \<in> set t. \<not> (inUse e \<and> name e = nm))"
  by (induction t) auto

text \<open>
  Sector numbers in a directory are not negative, so \<open>Find\<close> answers \<open>-1\<close> for an
  absent name only.
\<close>

lemma Directory_Find_absent:
  assumes "\<forall>e \<in> set t. inUse e \<longrightarrow> 0 \<le> sector e"
  shows "Directory_Find t nm = -1 \<longleftrightarrow> FindIndex t nm = None"
proof (cases "FindIndex t nm")
  case None
  then show ?thesis by (simp add: Directory_Find_def)
next
  case (Some i)
  from FindIndex_Some [OF Some] assms have "0 \<le> sector (t ! i)" by auto
  with Some show ?thesis by (simp add: Directory_Find_def)
qed

lemma Directory_Add_succeeds:
  "fst (Directory_Add t nm s d) \<longleftrightarrow> FindIndex t nm = None \<and> (\<exists>e \<in> set t. \<not> inUse e)"
  using firstUnused_None [of t]
  by (auto simp: Directory_Add_def split: option.splits)

text \<open>
  Claim C5. For a path that fits the path array: \<open>Create\<close> returns false when the parent
  directory does not resolve; when it resolves, \<open>Create\<close> returns true exactly if the
  terminal name is not in the parent directory, the free map has a free sector for the
  header, the directory has a free slot and \<open>Allocate\<close> charges a positive size; and on
  success the write-backs are the new header, then the parent directory with the entry
  added, then the free map as \<open>Allocate\<close> left it, in that order. The size handed to
  \<open>Allocate\<close> is \<open>DirectoryFileSize\<close> for a directory, whatever \<open>initialSize\<close> was.
\<close>

theorem Create_spec:
  assumes len: "length (buffers st pathName) < 1000"
  shows
    "let resolved = FindSubDirectory (stackTop st) (enterFrame st pathName 1);
         nm = buffers (snd resolved) (stackTop st);
         newSector = fst (FindAndSet (freeMapData st));
         alloc = Allocate env (snd (FindAndSet (freeMapData st)))
                   (if dir then DirectoryFileSize env else initialSize);
         result = Create env pathName initialSize dir st
     in (fst resolved = None \<longrightarrow> fst result = Inr False) \<and>
        (\<forall>curDirFile.
           fst resolved = Some curDirFile \<and>
           (\<forall>e \<in> set (tables st (hdrSector curDirFile)). inUse e \<longrightarrow> 0 \<le> sector e) \<longrightarrow>
           (fst result = Inr True \<or> fst result = Inr False) \<and>
           (fst result = Inr True \<longleftrightarrow>
              FindIndex (tables st (hdrSector curDirFile)) nm = None \<and>
              (\<exists>b \<in> set (freeMapData st). \<not> b) \<and>
              (\<exists>e \<in> set (tables st (hdrSector curDirFile)). \<not> inUse e) \<and>
              0 < fst alloc) \<and>
           (fst result = Inr True \<longrightarrow>
              diskWrites (snd result) =
                diskWrites st @
                [HeaderWrite newSector, DirectoryWrite (hdrSector curDirFile), FreeMapWrite] \<and>
              headers (snd result) = (headers st)(newSector := snd (snd alloc)) \<and>
              tables (snd result) =
                (tables st)(hdrSector curDirFile :=
                   snd (Directory_Add (tables st (hdrSector curDirFile)) nm newSector dir)) \<and>
              freeMapData (snd result) = fst (snd alloc)))"
proof -
  note unfold = Create_unfold [OF len, of env initialSize dir]
  define resolved where "resolved = FindSubDirectory (stackTop st) (enterFrame st pathName 1)"
  define nm where "nm = buffers (snd resolved) (stackTop st)"
  define newSector where "newSector = fst (FindAndSet (freeMapData st))"
  define alloc where "alloc = Allocate env (snd (FindAndSet (freeMapData st)))
                   (if dir then DirectoryFileSize env else initialSize)"
  have none: "fst resolved = None \<Longrightarrow> fst (Create env pathName initialSize dir st) = Inr False"
    unfolding unfold resolved_def by (simp add: Let_def)
  have some: "(fst (Create env pathName initialSize dir st) = Inr True \<or>
               fst (Create env pathName initialSize dir st) = Inr False) \<and>
           (fst (Create env pathName initialSize dir st) = Inr True \<longleftrightarrow>
              FindIndex (tables st (hdrSector curDirFile)) nm = None \<and>
              (\<exists>b \<in> set (freeMapData st). \<not> b) \<and>
              (\<exists>e \<in> set (tables st (hdrSector curDirFile)). \<not> inUse e) \<and>
              0 < fst alloc) \<and>
           (fst (Create env pathName initialSize dir st) = Inr True \<longrightarrow>
              diskWrites (snd (Create env pathName initialSize dir st)) =
                diskWrites st @
                [HeaderWrite newSector, DirectoryWrite (hdrSector curDirFile), FreeMapWrite] \<and>
              headers (snd (Create env pathName initialSize dir st)) =
                (headers st)(newSector := snd (snd alloc)) \<and>
              tables (snd (Create env pathName initialSize dir st)) =
                (tables st)(hdrSector curDirFile :=
                   snd (Directory_Add (tables st (hdrSector curDirFile)) nm newSector dir)) \<and>
              freeMapData (snd (Create env pathName initialSize dir st)) = fst (snd alloc))"
    if r: "fst resolved = Some curDirFile"
      and wf: "\<forall>e \<in> set (tables st (hdrSector curDirFile)). inUse e \<longrightarrow> 0 \<le> sector e"
    for curDirFile
  proof -
    define ok where "ok \<longleftrightarrow>
        Directory_Find (tables st (hdrSector curDirFile)) nm = -1 \<and> newSector \<noteq> -1 \<and>
        fst (Directory_Add (tables st (hdrSector curDirFile)) nm newSector dir) \<and>
        0 < fst alloc"
    have ok_iff: "ok \<longleftrightarrow>
              FindIndex (tables st (hdrSector curDirFile)) nm = None \<and>
              (\<exists>b \<in> set (freeMapData st). \<not> b) \<and>
              (\<exists>e \<in> set (tables st (hdrSector curDirFile)). \<not> inUse e) \<and>
              0 < fst alloc"
      unfolding ok_def newSector_def
      using Directory_Find_absent [OF wf, of nm] FindAndSet_full [of "freeMapData st"]
      by (auto simp: Directory_Add_succeeds)
    have res: "Create env pathName initialSize dir st =
        (if ok then (Inr True,
                      leaveFrame st (deleteUnlessRoot
                        (writeFreeMap
                           (writeDirectory (writeHeader (snd resolved) newSector (snd (snd alloc)))
                              curDirFile
                              (snd (Directory_Add (tables st (hdrSector curDirFile)) nm
                                      newSector dir)))
                           (fst (snd alloc)))
                        curDirFile))
         else (Inr False, leaveFrame st (deleteUnlessRoot (snd resolved) curDirFile)))"
      unfolding unfold using r
      by (simp add: Let_def ok_def resolved_def nm_def newSector_def alloc_def)
    have disk: "headers (snd resolved) = headers st" "tables (snd resolved) = tables st"
      "diskWrites (snd resolved) = diskWrites st"
      by (simp_all add: resolved_def FindSubDirectory_enterFrame_disk)
    show ?thesis
      unfolding res ok_iff [symmetric]
      by (cases ok) (simp_all add: writeFreeMap_def writeDirectory_def writeHeader_def disk)
  qed
  show ?thesis
    unfolding Let_def
    using none some
    by (simp only: resolved_def [symmetric] nm_def [symmetric] newSector_def [symmetric]
          alloc_def [symmetric]) blast
qed

lemma example_fs_fields [simp]:
  "buffers (example_fs path) 0 = path"
  "stackTop (example_fs path) = 1"
  "tables (example_fs path) 1 =
     [\<lparr>inUse = True, name = ''a'', sector = 5, isDir = True\<rparr>, unusedEntry]"
  "tables (example_fs path) 5 =
     [\<lparr>inUse = True, name = ''b'', sector = 9, isDir = False\<rparr>, unusedEntry]"
  "freeMapData (example_fs path) =
     [True, True, True, True, False, True, True, False,
      False, True, True, True, False, False, False, False]"
  "diskWrites (example_fs path) = []"
  "liveFiles (example_fs path) = {}"
  "nextFile (example_fs path) = 0"
  "openFileTableTop (example_fs path) = 0"
  by (simp_all add: example_fs_def)

lemma resolve_a_b:
  "FindSubDirectory (Suc 0) (enterFrame (example_fs ''/a/b'') 0 n) =
     (Some (Opened 0 5),
      (enterFrame (example_fs ''/a/b'') 0 n)
        \<lparr>liveFiles := {0}, nextFile := Suc 0,
         buffers := (buffers (enterFrame (example_fs ''/a/b'') 0 n))(Suc 0 := ''b'')\<rparr>)"
  by (simp add: FindSubDirectory_def FindSubDirectory_loop.simps strtok_def enterFrame_def
      example_fs_def Directory_Find_def DirectorySector_def newOpenFile_def
      deleteUnlessRoot_def Let_def)

lemma resolve_a_b_top:
  "FindSubDirectory (Suc 0)
        (enterFrame ((example_fs ''/a/b'')\<lparr>openFileTableTop := cnt\<rparr>) 0 (Suc 0)) =
     (Some (Opened 0 5),
      (enterFrame ((example_fs ''/a/b'')\<lparr>openFileTableTop := cnt\<rparr>) 0 (Suc 0))
        \<lparr>liveFiles := {0}, nextFile := Suc 0,
         buffers := (buffers (enterFrame ((example_fs ''/a/b'')
                       \<lparr>openFileTableTop := cnt\<rparr>) 0 (Suc 0)))(Suc 0 := ''b'')\<rparr>)"
  by (simp add: FindSubDirectory_def FindSubDirectory_loop.simps strtok_def enterFrame_def
      example_fs_def Directory_Find_def DirectorySector_def newOpenFile_def
      deleteUnlessRoot_def Let_def)

lemma resolve_a_c:
  "FindSubDirectory (Suc 0) (enterFrame (example_fs ''/a/c'') 0 n) =
     (Some (Opened 0 5),
      (enterFrame (example_fs ''/a/c'') 0 n)
        \<lparr>liveFiles := {0}, nextFile := Suc 0,
         buffers := (buffers (enterFrame (example_fs ''/a/c'') 0 n))(Suc 0 := ''c'')\<rparr>)"
  by (simp add: FindSubDirectory_def FindSubDirectory_loop.simps strtok_def enterFrame_def
      example_fs_def Directory_Find_def DirectorySector_def newOpenFile_def
      deleteUnlessRoot_def Let_def)

lemma resolve_big:
  "FindSubDirectory (Suc 0) (enterFrame (example_fs ''/big'') 0 n) =
     (Some DirectoryFile,
      (enterFrame (example_fs ''/big'') 0 n)
        \<lparr>buffers := (buffers (enterFrame (example_fs ''/big'') 0 n))(Suc 0 := ''big'')\<rparr>)"
  by (simp add: FindSubDirectory_def FindSubDirectory_loop.simps strtok_def enterFrame_def
      example_fs_def Let_def)

text \<open>
  \<open>Create\<close> fails on \<open>/a/b\<close>, which exists, and on \<open>/big\<close> with 1000 bytes, for which the
  seven free sectors are not enough; the disk stays as it was.
\<close>

theorem Create_failure_leaves_disk_witness:
  "fst (Create example_env 0 100 False (example_fs ''/a/b'')) = Inr False \<and>
   tables (snd (Create example_env 0 100 False (example_fs ''/a/b''))) =
     tables (example_fs ''/a/b'') \<and>
   freeMapData (snd (Create example_env 0 100 False (example_fs ''/a/b''))) =
     freeMapData (example_fs ''/a/b'') \<and>
   fst (Create example_env 0 1000 False (example_fs ''/big'')) = Inr False \<and>
   tables (snd (Create example_env 0 1000 False (example_fs ''/big''))) =
     tables (example_fs ''/big'') \<and>
   freeMapData (snd (Create example_env 0 1000 False (example_fs ''/big''))) =
     freeMapData (example_fs ''/big'') \<and>
   diskWrites (snd (Create example_env 0 1000 False (example_fs ''/big''))) = []"
proof -
  have a: "fst (Create example_env 0 100 False (example_fs ''/a/b'')) = Inr False"
    by (simp add: Create_unfold resolve_a_b Let_def Directory_Find_def)
  have b: "fst (Create example_env 0 1000 False (example_fs ''/big'')) = Inr False"
    by (simp add: Create_unfold resolve_big Let_def Directory_Find_def DirectorySector_def
        FindAndSet_def example_env_def example_Allocate_def)
  from Create_failure_leaves_disk [OF a] Create_failure_leaves_disk [OF b] a b
  show ?thesis by simp
qed

text \<open>
  \<open>Create\<close> of the directory \<open>/a/c\<close> succeeds: the header goes to sector 4, the lowest
  free one, the data to sector 7, and the write-backs are the header, the directory
  \<open>a\<close> and the free map.
\<close>

theorem Create_spec_witness:
  "length (buffers (example_fs ''/a/c'') 0) < 1000 \<and>
   fst (FindSubDirectory 1 (enterFrame (example_fs ''/a/c'') 0 1)) = Some (Opened 0 5) \<and>
   list_all (\<lambda>e. 0 \<le> sector e) (tables (example_fs ''/a/c'') 5) \<and>
   fst (Create example_env 0 0 True (example_fs ''/a/c'')) = Inr True \<and>
   diskWrites (snd (Create example_env 0 0 True (example_fs ''/a/c''))) =
     [HeaderWrite 4, DirectoryWrite 5, FreeMapWrite] \<and>
   headers (snd (Create example_env 0 0 True (example_fs ''/a/c''))) 4 =
     \<lparr>numBytes = 128, dataSectors = [7]\<rparr> \<and>
   tables (snd (Create example_env 0 0 True (example_fs ''/a/c''))) 5 =
     [\<lparr>inUse = True, name = ''b'', sector = 9, isDir = False\<rparr>,
      \<lparr>inUse = True, name = ''c'', sector = 4, isDir = True\<rparr>]"
  using Create_spec [of "example_fs ''/a/c''" 0 example_env True 0]
  by (simp add: Let_def resolve_a_c unusedEntry_def FindAndSet_def example_env_def
      example_Allocate_def Directory_Add_def)

subsection \<open>Open\<close>

lemma Open_unfold:
  assumes "length (buffers st pathName) < 1000"
  shows "Open pathName st =
     (let st1 = snd (FindSubDirectory (stackTop st) (enterFrame st pathName 1))
      in case fst (FindSubDirectory (stackTop st) (enterFrame st pathName 1)) of
           None \<Rightarrow> (Inr None, leaveFrame st st1)
         | Some curDirFile \<Rightarrow>
             let s = Directory_Find (tables st (hdrSector curDirFile)) (buffers st1 (stackTop st))
             in if openFileTableTop st \<ge> 487 then (Inr None, leaveFrame st st1)
                else if s \<ge> 0
                then (Inr (Some (Opened (nextFile st1) s)),
                      leaveFrame st (deleteUnlessRoot
                        ((snd (newOpenFile st1 s))
                           \<lparr>openFileTable :=
                              (openFileTable st)(openFileTableTop st \<mapsto> Opened (nextFile st1) s),
                            openFileTableTop := openFileTableTop st + 1\<rparr>) curDirFile))
                else (Inr None, leaveFrame st (deleteUnlessRoot st1 curDirFile)))"
  using assms
  by (simp add: Open_def Let_def case_prod_beta FindSubDirectory_enterFrame_disk not_less
           split: option.split)

text \<open>
  Claim C7. For a path that fits the path array, \<open>Open\<close> returns null when the parent
  directory does not resolve. When it resolves, \<open>Open\<close> returns null if the count of
  handles has reached 487 or the terminal name is not in the parent directory, and the
  table of open files is then unchanged; otherwise it returns a new \<open>OpenFile\<close> bound to
  the sector the directory gives for the name, stores it in the table at the old count
  and raises the count by one.
\<close>

theorem Open_spec:
  assumes len: "length (buffers st pathName) < 1000"
  shows
    "let resolved = FindSubDirectory (stackTop st) (enterFrame st pathName 1);
         nm = buffers (snd resolved) (stackTop st);
         result = Open pathName st
     in (fst resolved = None \<longrightarrow> fst result = Inr None) \<and>
        (\<forall>curDirFile.
           fst resolved = Some curDirFile \<and>
           (\<forall>e \<in> set (tables st (hdrSector curDirFile)). inUse e \<longrightarrow> 0 \<le> sector e) \<longrightarrow>
           (if openFileTableTop st \<ge> 487 \<or> FindIndex (tables st (hdrSector curDirFile)) nm = None
            then fst result = Inr None \<and>
                 openFileTable (snd result) = openFileTable st \<and>
                 openFileTableTop (snd result) = openFileTableTop st
            else fst result =
                   Inr (Some (Opened (nextFile (snd resolved))
                                (Directory_Find (tables st (hdrSector curDirFile)) nm))) \<and>
                 openFileTable (snd result) =
                   (openFileTable st)(openFileTableTop st \<mapsto>
                      Opened (nextFile (snd resolved))
                        (Directory_Find (tables st (hdrSector curDirFile)) nm)) \<and>
                 openFileTableTop (snd result) = openFileTableTop st + 1))"
proof -
  note unfold = Open_unfold [OF len]
  define resolved where "resolved = FindSubDirectory (stackTop st) (enterFrame st pathName 1)"
  define nm where "nm = buffers (snd resolved) (stackTop st)"
  have keep: "openFileTable (snd resolved) = openFileTable st"
    "openFileTableTop (snd resolved) = openFileTableTop st"
    by (simp_all add: resolved_def FindSubDirectory_enterFrame_disk)
  have none: "fst resolved = None \<Longrightarrow> fst (Open pathName st) = Inr None"
    unfolding unfold resolved_def by (simp add: Let_def)
  have some: "if openFileTableTop st \<ge> 487 \<or> FindIndex (tables st (hdrSector curDirFile)) nm = None
            then fst (Open pathName st) = Inr None \<and>
                 openFileTable (snd (Open pathName st)) = openFileTable st \<and>
                 openFileTableTop (snd (Open pathName st)) = openFileTableTop st
            else fst (Open pathName st) =
                   Inr (Some (Opened (nextFile (snd resolved))
                                (Directory_Find (tables st (hdrSector curDirFile)) nm))) \<and>
                 openFileTable (snd (Open pathName st)) =
                   (openFileTable st)(openFileTableTop st \<mapsto>
                      Opened (nextFile (snd resolved))
                        (Directory_Find (tables st (hdrSector curDirFile)) nm)) \<and>
                 openFileTableTop (snd (Open pathName st)) = openFileTableTop st + 1"
    if r: "fst resolved = Some curDirFile"
      and wf: "\<forall>e \<in> set (tables st (hdrSector curDirFile)). inUse e \<longrightarrow> 0 \<le> sector e"
    for curDirFile
  proof -
    define s where "s = Directory_Find (tables st (hdrSector curDirFile)) nm"
    have res: "Open pathName st =
        (if openFileTableTop st \<ge> 487 then (Inr None, leaveFrame st (snd resolved))
         else if s \<ge> 0
         then (Inr (Some (Opened (nextFile (snd resolved)) s)),
                      leaveFrame st (deleteUnlessRoot
                        ((snd (newOpenFile (snd resolved) s))
                           \<lparr>openFileTable :=
                              (openFileTable st)(openFileTableTop st \<mapsto>
                                 Opened (nextFile (snd resolved)) s),
                            openFileTableTop := openFileTableTop st + 1\<rparr>) curDirFile))
         else (Inr None, leaveFrame st (deleteUnlessRoot (snd resolved) curDirFile)))"
      unfolding unfold using r by (simp add: Let_def resolved_def nm_def s_def)
    have absent: "FindIndex (tables st (hdrSector curDirFile)) nm = None \<longleftrightarrow> \<not> s \<ge> 0"
    proof (cases "FindIndex (tables st (hdrSector curDirFile)) nm")
      case None
      then show ?thesis by (simp add: s_def Directory_Find_def)
    next
      case (Some i)
      from FindIndex_Some [OF Some] wf have "0 \<le> sector (tables st (hdrSector curDirFile) ! i)"
        by auto
      with Some show ?thesis by (simp add: s_def Directory_Find_def)
    qed
    show ?thesis
      unfolding res absent s_def [symmetric]
      by (simp add: keep)
  qed
  show ?thesis
    unfolding Let_def
    using none some
    by (simp only: resolved_def [symmetric] nm_def [symmetric]) blast
qed

text \<open>
  Opening \<open>/a/b\<close> on the example disk gives a handle on sector 9, stored in slot 0 of
  the table of open files. With 486 handles counted the call still gives a handle, the
  487th; with 487 counted it returns null.
\<close>

theorem Open_spec_witness:
  "length (buffers (example_fs ''/a/b'') 0) < 1000 \<and>
   fst (FindSubDirectory 1 (enterFrame (example_fs ''/a/b'') 0 1)) = Some (Opened 0 5) \<and>
   list_all (\<lambda>e. 0 \<le> sector e) (tables (example_fs ''/a/b'') 5) \<and>
   fst (Open 0 (example_fs ''/a/b'')) = Inr (Some (Opened 1 9)) \<and>
   openFileTable (snd (Open 0 (example_fs ''/a/b''))) 0 = Some (Opened 1 9) \<and>
   openFileTableTop (snd (Open 0 (example_fs ''/a/b''))) = 1 \<and>
   fst (Open 0 ((example_fs ''/a/b'')\<lparr>openFileTableTop := 486\<rparr>)) = Inr (Some (Opened 1 9)) \<and>
   openFileTableTop (snd (Open 0 ((example_fs ''/a/b'')\<lparr>openFileTableTop := 486\<rparr>))) = 487 \<and>
   fst (Open 0 ((example_fs ''/a/b'')\<lparr>openFileTableTop := 487\<rparr>)) = Inr None"
  using Open_spec [of "example_fs ''/a/b''" 0]
    Open_spec [of "(example_fs ''/a/b'')\<lparr>openFileTableTop := 486\<rparr>" 0]
    Open_spec [of "(example_fs ''/a/b'')\<lparr>openFileTableTop := 487\<rparr>" 0]
  by (simp add: Let_def resolve_a_b resolve_a_b_top unusedEntry_def Directory_Find_def)

subsection \<open>Directory handles opened by path resolution\<close>

text \<open>
  Claim C8 does not hold for \<open>Open\<close>. With 487 handles counted, \<open>Open\<close> of \<open>/a/b\<close>
  returns null from the test of the count, after path resolution has opened the
  directory \<open>a\<close> and before the guarded delete that every other exit path runs: the
  handle of \<open>a\<close> (object 0) stays live. Below the limit the same call, for a name that
  is absent, returns null and leaves no handle behind.
\<close>

theorem Open_at_limit_leaks_handle:
  "liveFiles ((example_fs ''/a/b'')\<lparr>openFileTableTop := 487\<rparr>) = {} \<and>
   fst (Open 0 ((example_fs ''/a/b'')\<lparr>openFileTableTop := 487\<rparr>)) = Inr None \<and>
   liveFiles (snd (Open 0 ((example_fs ''/a/b'')\<lparr>openFileTableTop := 487\<rparr>))) = {0} \<and>
   fst (Open 0 (example_fs ''/a/c'')) = Inr None \<and>
   liveFiles (snd (Open 0 (example_fs ''/a/c''))) = {}"
proof -
  show ?thesis
    by (simp add: Open_def Let_def resolve_a_b_top resolve_a_c Directory_Find_def
        unusedEntry_def deleteUnlessRoot_def)
qed

subsection \<open>Paths without components, and trailing slashes\<close>

lemma Remove_step: "Remove recursive pathName st = RemoveFuel (Suc 999) recursive pathName st"
  by (simp add: Remove_def)

lemma strtok_slashes: "(\<forall>c \<in> set s. c = CHR ''/'') \<Longrightarrow> strtok s = None"
  by (simp add: strtok_def dropWhile_eq_Nil_conv [THEN iffD2])

lemma FindSubDirectory_slashes:
  "(\<forall>c \<in> set (buffers st nameBuf). c = CHR ''/'') \<Longrightarrow>
   FindSubDirectory nameBuf st = (None, st)"
  by (simp add: FindSubDirectory_def strtok_slashes)

text \<open>
  Claim C9, as amended. For a path that is empty or consists of slashes only,
  \<open>FindSubDirectory\<close> returns null; hence, when the path fits the path array, \<open>Open\<close>
  returns null and \<open>Create\<close> and \<open>Remove\<close> return false.
\<close>

theorem no_components_not_resolved:
  assumes slashes: "\<forall>c \<in> set (buffers st pathName). c = CHR ''/''"
    and len: "length (buffers st pathName) < 1000"
  shows "fst (FindSubDirectory pathName st) = None \<and>
         fst (Open pathName st) = Inr None \<and>
         fst (Create env pathName initialSize dir st) = Inr False \<and>
         fst (Remove recursive pathName st) = Inr False"
proof -
  have copy: "\<forall>c \<in> set (buffers (enterFrame st pathName n) (stackTop st)). c = CHR ''/''" for n
    using slashes by simp
  have a: "fst (FindSubDirectory pathName st) = None"
    using slashes by (simp add: FindSubDirectory_slashes)
  have b: "fst (Open pathName st) = Inr None"
    by (simp add: Open_unfold [OF len] FindSubDirectory_slashes [OF copy])
  have c: "fst (Create env pathName initialSize dir st) = Inr False"
    by (simp add: Create_unfold [OF len] FindSubDirectory_slashes [OF copy])
  have d: "fst (Remove recursive pathName st) = Inr False"
    using len
    by (subst Remove_step, subst RemoveFuel.simps(2))
       (simp add: FindSubDirectory_slashes [OF copy])
  from a b c d show ?thesis by simp
qed

theorem no_components_not_resolved_witness:
  "list_all (\<lambda>c. c = CHR ''/'') (buffers (example_fs ''//'') 0) \<and>
   length (buffers (example_fs ''//'') 0) < 1000 \<and>
   fst (FindSubDirectory 0 (example_fs ''//'')) = None \<and>
   fst (Open 0 (example_fs ''//'')) = Inr None \<and>
   fst (Create example_env 0 10 False (example_fs ''//'')) = Inr False \<and>
   fst (Remove True 0 (example_fs ''//'')) = Inr False"
  using no_components_not_resolved [of "example_fs ''//''" 0 example_env 10 False True]
  by simp

text \<open>
  The claim as it was stated also rejects a path that ends with a slash. \<open>strtok\<close> skips
  the trailing slash: \<open>/a/\<close> resolves to the root directory with the terminal name \<open>a\<close>,
  as \<open>/a\<close> does, so \<open>Open\<close> of \<open>/a/\<close> returns a handle, \<open>Create\<close> of \<open>/c/\<close> returns true
  and \<open>Remove\<close> of \<open>/a/b/\<close> returns true.
\<close>

theorem trailing_slash_counterexample:
  "fst (FindSubDirectory 0 (example_fs ''/a/'')) = Some DirectoryFile \<and>
   buffers (snd (FindSubDirectory 0 (example_fs ''/a/''))) 0 = ''a'' \<and>
   fst (Open 0 (example_fs ''/a/'')) = Inr (Some (Opened 0 5)) \<and>
   fst (Create example_env 0 10 False (example_fs ''/c/'')) = Inr True \<and>
   fst (Remove False 0 (example_fs ''/a/b/'')) = Inr True"
proof -
  have a: "FindSubDirectory 0 (example_fs ''/a/'') =
      (Some DirectoryFile, (example_fs ''/a/'')\<lparr>buffers := (buffers (example_fs ''/a/''))(0 := ''a'')\<rparr>)"
    by (simp add: FindSubDirectory_def FindSubDirectory_loop.simps strtok_def)
  have b: "FindSubDirectory (Suc 0) (enterFrame (example_fs ''/a/'') 0 (Suc 0)) =
      (Some DirectoryFile, (enterFrame (example_fs ''/a/'') 0 (Suc 0))
         \<lparr>buffers := (buffers (enterFrame (example_fs ''/a/'') 0 (Suc 0)))(Suc 0 := ''a'')\<rparr>)"
    by (simp add: FindSubDirectory_def FindSubDirectory_loop.simps strtok_def)
  have c: "FindSubDirectory (Suc 0) (enterFrame (example_fs ''/c/'') 0 (Suc 0)) =
      (Some DirectoryFile, (enterFrame (example_fs ''/c/'') 0 (Suc 0))
         \<lparr>buffers := (buffers (enterFrame (example_fs ''/c/'') 0 (Suc 0)))(Suc 0 := ''c'')\<rparr>)"
    by (simp add: FindSubDirectory_def FindSubDirectory_loop.simps strtok_def)
  have d: "FindSubDirectory (Suc 0) (enterFrame (example_fs ''/a/b/'') 0 2) =
     (Some (Opened 0 5),
      (enterFrame (example_fs ''/a/b/'') 0 2)
        \<lparr>liveFiles := {0}, nextFile := Suc 0,
         buffers := (buffers (enterFrame (example_fs ''/a/b/'') 0 2))(Suc 0 := ''b'')\<rparr>)"
    by (simp add: FindSubDirectory_def FindSubDirectory_loop.simps strtok_def enterFrame_def
      example_fs_def Directory_Find_def DirectorySector_def newOpenFile_def
      deleteUnlessRoot_def Let_def)
  have open_a: "fst (Open 0 (example_fs ''/a/'')) = Inr (Some (Opened 0 5))"
    by (simp add: Open_unfold b Let_def Directory_Find_def DirectorySector_def)
  have create_c: "fst (Create example_env 0 10 False (example_fs ''/c/'')) = Inr True"
    by (simp add: Create_unfold c Let_def Directory_Find_def DirectorySector_def
        unusedEntry_def FindAndSet_def Directory_Add_def example_env_def example_Allocate_def)
  have remove_b: "fst (Remove False 0 (example_fs ''/a/b/'')) = Inr True"
    by (subst Remove_step, subst RemoveFuel.simps(2))
       (simp add: d Let_def Directory_Find_def)
  from a open_a create_c remove_b show ?thesis by simp
qed

subsection \<open>The caller's path array\<close>

lemma write_fields [simp]:
  "buffers (writeHeader st s hdr) = buffers st"
  "stackTop (writeHeader st s hdr) = stackTop st"
  "liveFiles (writeHeader st s hdr) = liveFiles st"
  "buffers (writeDirectory st f t) = buffers st"
  "stackTop (writeDirectory st f t) = stackTop st"
  "liveFiles (writeDirectory st f t) = liveFiles st"
  "buffers (writeFreeMap st m) = buffers st"
  "stackTop (writeFreeMap st m) = stackTop st"
  "liveFiles (writeFreeMap st m) = liveFiles st"
  by (simp_all add: writeHeader_def writeDirectory_def writeFreeMap_def)

lemma RemoveEntry_fields [simp]:
  "buffers (RemoveEntry st f d nm s) = buffers st"
  "stackTop (RemoveEntry st f d nm s) = stackTop st"
  "liveFiles (RemoveEntry st f d nm s) = liveFiles st"
  "headers (RemoveEntry st f d nm s) = headers st"
  by (simp_all add: RemoveEntry_def Let_def writeDirectory_def writeFreeMap_def)

lemma FindSubDirectory_buffers:
  "a \<noteq> nameBuf \<Longrightarrow> buffers (snd (FindSubDirectory nameBuf st)) a = buffers st a"
  using FindSubDirectory_same [of nameBuf st] by (simp add: sameButResolution_def)

lemma FindSubDirectory_stackTop:
  "stackTop (snd (FindSubDirectory nameBuf st)) = stackTop st"
  using FindSubDirectory_same [of nameBuf st] by (simp add: sameButResolution_def)

lemma RemoveChildren_frame:
  assumes rm: "keepsFrame rm"
  shows "stackTop (snd (RemoveChildren rm tar offset es st)) = stackTop st \<and>
         (\<forall>a < stackTop st. a \<noteq> tar \<longrightarrow>
            buffers (snd (RemoveChildren rm tar offset es st)) a = buffers st a)"
proof (induction es arbitrary: st)
  case Nil
  show ?case by simp
next
  case (Cons e es)
  show ?case
  proof (cases "inUse e \<and> \<not> offset + 1 + length (name e) \<ge> 1000")
    case False
    then show ?thesis using Cons.IH [of st] by auto
  next
    case True
    define st1 where "st1 = st\<lparr>buffers := (buffers st)
                          (tar := take (offset + 1) (buffers st tar) @ name e)\<rparr>"
    have s1: "stackTop st1 = stackTop st" "\<And>a. a \<noteq> tar \<Longrightarrow> buffers st1 a = buffers st a"
      by (simp_all add: st1_def)
    from rm have r: "stackTop (snd (rm tar st1)) = stackTop st1"
      "\<And>a. a < stackTop st1 \<Longrightarrow> buffers (snd (rm tar st1)) a = buffers st1 a"
      by (simp_all add: keepsFrame_def)
    show ?thesis
    proof (cases "fst (rm tar st1)")
      case (Inl err)
      then have "RemoveChildren rm tar offset (e # es) st = (Some err, snd (rm tar st1))"
        using True unfolding st1_def by (simp add: Let_def case_prod_beta)
      then show ?thesis using r s1 by simp
    next
      case (Inr removed)
      then have "RemoveChildren rm tar offset (e # es) st =
                 RemoveChildren rm tar offset es (snd (rm tar st1))"
        using True unfolding st1_def by (simp add: Let_def case_prod_beta)
      then show ?thesis using Cons.IH [of "snd (rm tar st1)"] r s1 by simp
    qed
  qed
qed

lemma RemoveTargetChildren_frame:
  assumes rm: "keepsFrame rm"
  shows "stackTop (snd (RemoveTargetChildren rm pathName tar s st)) = stackTop st \<and>
         (\<forall>a < stackTop st. a \<noteq> tar \<longrightarrow>
            buffers (snd (RemoveTargetChildren rm pathName tar s st)) a = buffers st a)"
proof -
  define sb where "sb = (snd (newOpenFile st s))
        \<lparr>buffers := (buffers st)(tar := buffers st pathName @ ''/'')\<rparr>"
  have sb: "stackTop sb = stackTop st" "\<And>a. a \<noteq> tar \<Longrightarrow> buffers sb a = buffers st a"
    by (simp_all add: sb_def)
  have eq: "snd (RemoveTargetChildren rm pathName tar s st) =
      deleteOpenFile (snd (RemoveChildren rm tar (length (buffers st pathName)) (tables st s) sb))
        (Opened (nextFile st) s)"
    by (simp add: RemoveTargetChildren_def Let_def case_prod_beta sb_def)
  show ?thesis
    unfolding eq
    using RemoveChildren_frame [OF rm, of tar "length (buffers st pathName)" "tables st s" sb] sb
    by simp
qed

lemma RemoveFuel_frame: "keepsFrame (RemoveFuel fuel recursive)"
proof (induction fuel arbitrary: recursive)
  case 0
  show ?case by (simp add: keepsFrame_def)
next
  case (Suc fuel)
  have "stackTop (snd (RemoveFuel (Suc fuel) recursive p st)) = stackTop st \<and>
        (\<forall>a < stackTop st. buffers (snd (RemoveFuel (Suc fuel) recursive p st)) a = buffers st a)"
    for p st
  proof (cases "length (buffers st p) \<ge> 1000")
    case True
    then show ?thesis by simp
  next
    case False
    define r where "r = FindSubDirectory (stackTop st) (enterFrame st p 2)"
    have r1: "stackTop (snd r) = stackTop st + 2"
      "\<And>a. a < stackTop st \<Longrightarrow> buffers (snd r) a = buffers st a"
      by (simp_all add: r_def FindSubDirectory_stackTop FindSubDirectory_buffers)
    show ?thesis
    proof (cases "fst r")
      case None
      then show ?thesis using False r1
        by (simp add: Let_def case_prod_beta r_def [symmetric])
    next
      case (Some curDirFile)
      define nm where "nm = buffers (snd r) (stackTop st)"
      define directory where "directory = tables (snd r) (hdrSector curDirFile)"
      define s where "s = Directory_Find directory nm"
      define kids where "kids =
          (if Directory_isDir directory nm \<and> recursive
           then RemoveTargetChildren (RemoveFuel fuel True) p (stackTop st + 1) s (snd r)
           else (None, snd r))"
      have k: "stackTop (snd kids) = stackTop st + 2"
        "\<And>a. a < stackTop st \<Longrightarrow> buffers (snd kids) a = buffers st a"
        using RemoveTargetChildren_frame [OF Suc.IH [of True], of p "stackTop st + 1" s "snd r"] r1
        by (simp_all add: kids_def)
      have res: "RemoveFuel (Suc fuel) recursive p st =
          (if s = -1 then (Inr False, leaveFrame st (deleteUnlessRoot (snd r) curDirFile))
           else case fst kids of
                  Some e \<Rightarrow> (Inl e, leaveFrame st (snd kids))
                | None \<Rightarrow> (Inr True,
                     leaveFrame st (deleteUnlessRoot
                       (RemoveEntry (snd kids) curDirFile directory nm s) curDirFile)))"
        using False Some
        unfolding kids_def s_def directory_def nm_def r_def
        by (auto simp: Let_def case_prod_beta split: option.split)
      show ?thesis
        unfolding res using r1 k by (simp split: option.split)
    qed
  qed
  then show ?case by (simp add: keepsFrame_def)
qed

lemma Create_buffers:
  assumes "a \<noteq> stackTop st"
  shows "buffers (snd (Create env pathName initialSize dir st)) a = buffers st a"
proof (cases "length (buffers st pathName) < 1000")
  case False
  then show ?thesis by (simp add: Create_def)
next
  case True
  show ?thesis
    unfolding Create_unfold [OF True]
    using assms
    by (simp add: Let_def FindSubDirectory_buffers split: option.split)
qed

lemma Open_buffers:
  assumes "a \<noteq> stackTop st"
  shows "buffers (snd (Open pathName st)) a = buffers st a"
proof (cases "length (buffers st pathName) < 1000")
  case False
  then show ?thesis by (simp add: Open_def)
next
  case True
  show ?thesis
    unfolding Open_unfold [OF True]
    using assms
    by (simp add: Let_def FindSubDirectory_buffers split: option.split)
qed

lemma List_dir_buffers:
  assumes "a \<noteq> stackTop st"
  shows "buffers (snd (List_dir recursive pathName st)) a = buffers st a"
  using assms
  by (simp add: List_dir_def Let_def case_prod_beta FindSubDirectory_buffers
      split: option.split)

text \<open>
  Claim C10. The array that holds the caller's path lies below the stack top, where the
  operations take their local arrays. After \<open>Create\<close>, \<open>Open\<close>, \<open>Remove\<close> and \<open>List\<close> it
  holds the string it held before the call: the tokeniser, which overwrites the array
  it is given, only ever gets the local copy, and the recursive calls of \<open>Remove\<close> get the
  local array \<open>tarPathName\<close> and leave it alone in turn.
\<close>

theorem caller_path_unchanged:
  assumes "pathName < stackTop st"
  shows "buffers (snd (Create env pathName initialSize dir st)) pathName = buffers st pathName \<and>
         buffers (snd (Open pathName st)) pathName = buffers st pathName \<and>
         buffers (snd (Remove recursive pathName st)) pathName = buffers st pathName \<and>
         buffers (snd (List_dir recursive pathName st)) pathName = buffers st pathName"
proof -
  from assms have ne: "pathName \<noteq> stackTop st" by simp
  have "buffers (snd (RemoveFuel 1000 recursive pathName st)) pathName = buffers st pathName"
    using RemoveFuel_frame [of 1000 recursive] assms by (simp add: keepsFrame_def)
  then show ?thesis
    using ne by (simp add: Create_buffers Open_buffers List_dir_buffers Remove_def)
qed

text \<open>
  On the example disk the caller's array at address 0 still holds \<open>/a/b\<close> after each
  operation, while path resolution applied to that array itself leaves \<open>b\<close> in it.
\<close>

theorem caller_path_unchanged_witness:
  "(0::nat) < stackTop (example_fs ''/a/b'') \<and>
   buffers (snd (Create example_env 0 10 False (example_fs ''/a/b''))) 0 = ''/a/b'' \<and>
   buffers (snd (Open 0 (example_fs ''/a/b''))) 0 = ''/a/b'' \<and>
   buffers (snd (Remove True 0 (example_fs ''/a/b''))) 0 = ''/a/b'' \<and>
   buffers (snd (List_dir True 0 (example_fs ''/a/b''))) 0 = ''/a/b'' \<and>
   buffers (snd (FindSubDirectory 0 (example_fs ''/a/b''))) 0 = ''b''"
proof -
  have "buffers (snd (FindSubDirectory 0 (example_fs ''/a/b''))) 0 = ''b''"
    by (simp add: FindSubDirectory_def FindSubDirectory_loop.simps strtok_def
      example_fs_def Directory_Find_def DirectorySector_def newOpenFile_def
      deleteUnlessRoot_def Let_def)
  then show ?thesis
    using caller_path_unchanged [of 0 "example_fs ''/a/b''" example_env 10 False True]
    by simp
qed

subsection \<open>The fuel of Remove is never used up\<close>

lemma RemoveChildren_fuel:
  assumes frame: "keepsFrame rm"
    and rm: "\<And>s. tar < stackTop s \<Longrightarrow> offset + 1 \<le> length (buffers s tar) \<Longrightarrow>
                 offset < 999 \<Longrightarrow> fst (rm tar s) \<noteq> Inl OutOfFuel"
    and tar: "tar < stackTop st"
    and long: "offset + 1 \<le> length (buffers st tar)"
  shows "fst (RemoveChildren rm tar offset es st) \<noteq> Some OutOfFuel"
  using tar long
proof (induction es arbitrary: st)
  case Nil
  show ?case by simp
next
  case (Cons e es)
  show ?case
  proof (cases "inUse e")
    case False
    then show ?thesis using Cons.IH [OF Cons.prems] by simp
  next
    case True
    show ?thesis
    proof (cases "offset + 1 + length (name e) \<ge> 1000")
      case True
      with \<open>inUse e\<close> show ?thesis by simp
    next
      case False
      define st1 where "st1 = st\<lparr>buffers := (buffers st)
                          (tar := take (offset + 1) (buffers st tar) @ name e)\<rparr>"
      have l1: "offset + 1 \<le> length (buffers st1 tar)"
        using Cons.prems(2) by (simp add: st1_def)
      have t1: "tar < stackTop st1" using Cons.prems(1) by (simp add: st1_def)
      from False have "offset < 999" by simp
      with rm [OF t1 l1] have nofuel: "fst (rm tar st1) \<noteq> Inl OutOfFuel" by simp
      from frame t1 have keep: "stackTop (snd (rm tar st1)) = stackTop st1"
        "buffers (snd (rm tar st1)) tar = buffers st1 tar"
        by (simp_all add: keepsFrame_def)
      show ?thesis
      proof (cases "fst (rm tar st1)")
        case (Inl err)
        then have "RemoveChildren rm tar offset (e # es) st = (Some err, snd (rm tar st1))"
          using \<open>inUse e\<close> False unfolding st1_def by (simp add: Let_def case_prod_beta)
        with nofuel Inl show ?thesis by simp
      next
        case (Inr removed)
        then have "RemoveChildren rm tar offset (e # es) st =
                   RemoveChildren rm tar offset es (snd (rm tar st1))"
          using \<open>inUse e\<close> False unfolding st1_def by (simp add: Let_def case_prod_beta)
        then show ?thesis
          using Cons.IH [of "snd (rm tar st1)"] keep t1 l1 by simp
      qed
    qed
  qed
qed

lemma RemoveFuel_suffices:
  "p < stackTop st \<Longrightarrow> 1000 \<le> length (buffers st p) + fuel \<Longrightarrow> 0 < fuel \<Longrightarrow>
   fst (RemoveFuel fuel recursive p st) \<noteq> Inl OutOfFuel"
proof (induction fuel arbitrary: recursive p st)
  case 0
  then show ?case by simp
next
  case (Suc fuel)
  show ?case
  proof (cases "length (buffers st p) \<ge> 1000")
    case True
    then show ?thesis by simp
  next
    case False
    define r where "r = FindSubDirectory (stackTop st) (enterFrame st p 2)"
    have r1: "stackTop (snd r) = stackTop st + 2" "buffers (snd r) p = buffers st p"
      using Suc.prems(1)
      by (simp_all add: r_def FindSubDirectory_stackTop FindSubDirectory_buffers)
    show ?thesis
    proof (cases "fst r")
      case None
      then show ?thesis using False
        by (simp add: Let_def case_prod_beta r_def [symmetric])
    next
      case (Some curDirFile)
      define nm where "nm = buffers (snd r) (stackTop st)"
      define directory where "directory = tables (snd r) (hdrSector curDirFile)"
      define s where "s = Directory_Find directory nm"
      define tar where "tar = stackTop st + 1"
      define kids where "kids =
          (if Directory_isDir directory nm \<and> recursive
           then RemoveTargetChildren (RemoveFuel fuel True) p tar s (snd r)
           else (None, snd r))"
      define offset where "offset = length (buffers st p)"
      define sb where "sb = (snd (newOpenFile (snd r) s))
        \<lparr>buffers := (buffers (snd r))(tar := buffers (snd r) p @ ''/'')\<rparr>"
      have rm: "fst (RemoveFuel fuel True tar s') \<noteq> Inl OutOfFuel"
        if "tar < stackTop s'" "offset + 1 \<le> length (buffers s' tar)" "offset < 999" for s'
      proof -
        from Suc.prems(2) that have "1000 \<le> length (buffers s' tar) + fuel" "0 < fuel"
          by (simp_all add: offset_def)
        with that(1) show ?thesis by (rule Suc.IH)
      qed
      have sb: "tar < stackTop sb" "offset + 1 \<le> length (buffers sb tar)"
        by (simp_all add: sb_def tar_def r1 offset_def)
      have loop: "fst (RemoveChildren (RemoveFuel fuel True) tar offset (tables (snd r) s) sb)
                  \<noteq> Some OutOfFuel"
        using RemoveFuel_frame rm sb by (rule RemoveChildren_fuel)
      have kids_ok: "fst kids \<noteq> Some OutOfFuel"
        using loop
        by (simp add: kids_def RemoveTargetChildren_def Let_def case_prod_beta sb_def
            offset_def r1)
      have res: "RemoveFuel (Suc fuel) recursive p st =
          (if s = -1 then (Inr False, leaveFrame st (deleteUnlessRoot (snd r) curDirFile))
           else case fst kids of
                  Some e \<Rightarrow> (Inl e, leaveFrame st (snd kids))
                | None \<Rightarrow> (Inr True,
                     leaveFrame st (deleteUnlessRoot
                       (RemoveEntry (snd kids) curDirFile directory nm s) curDirFile)))"
        using False Some
        unfolding kids_def s_def directory_def nm_def r_def tar_def
        by (auto simp: Let_def case_prod_beta split: option.split)
      show ?thesis
        unfolding res using kids_ok by (auto split: option.split)
    qed
  qed
qed

text \<open>
  \<open>Remove\<close> returns: for a path array of the caller, the 1000 units of fuel are enough
  for every disk, and the result is true, false or the overflow of a path array.
\<close>

lemma Remove_fuel_suffices:
  "pathName < stackTop st \<Longrightarrow> fst (Remove recursive pathName st) \<noteq> Inl OutOfFuel"
  unfolding Remove_def by (rule RemoveFuel_suffices) simp_all

subsection \<open>Remove\<close>

lemma cleared_refl: "cleared t t"
  by (simp add: cleared_def list_all2_refl)

lemma cleared_trans:
  assumes "cleared t t'" and "cleared t' t''"
  shows "cleared t t''"
proof -
  have step: "c = a \<or> c = a\<lparr>inUse := False\<rparr>"
    if "b = a \<or> b = a\<lparr>inUse := False\<rparr>" "c = b \<or> c = b\<lparr>inUse := False\<rparr>"
    for a b c :: DirectoryEntry
    using that by auto
  from assms show ?thesis
    unfolding cleared_def by (rule list_all2_trans [rotated]) (rule step)
qed

lemma cleared_update:
  "cleared t (t[i := (t ! i)\<lparr>inUse := False\<rparr>])"
proof (cases "i < length t")
  case True
  then show ?thesis
    by (auto simp: cleared_def list_all2_conv_all_nth nth_list_update)
next
  case False
  then have "length t \<le> i" by simp
  then have "t[i := (t ! i)\<lparr>inUse := False\<rparr>] = t" by (rule list_update_beyond)
  then show ?thesis by (simp add: cleared_refl)
qed

lemma cleared_Directory_Remove: "cleared t (snd (Directory_Remove t nm))"
  by (simp add: Directory_Remove_def cleared_refl cleared_update split: option.split)

lemma cleared_Nil [simp]: "cleared [] u \<longleftrightarrow> u = []"
  by (simp add: cleared_def)

lemma cleared_Cons:
  "cleared (e # t) u \<longleftrightarrow>
     (\<exists>e' t'. u = e' # t' \<and> (e' = e \<or> e' = e\<lparr>inUse := False\<rparr>) \<and> cleared t t')"
  by (simp add: cleared_def list_all2_Cons1)

lemma cleared_names:
  "cleared t t' \<Longrightarrow> e' \<in> set t' \<Longrightarrow> inUse e' \<Longrightarrow> \<exists>e \<in> set t. inUse e \<and> name e = name e'"
proof (induction t arbitrary: t')
  case Nil
  then show ?case by simp
next
  case (Cons a t)
  from Cons.prems(1) obtain a' u where t': "t' = a' # u"
    and a': "a' = a \<or> a' = a\<lparr>inUse := False\<rparr>" and u: "cleared t u"
    by (auto simp: cleared_Cons)
  show ?case
  proof (cases "e' = a'")
    case True
    with a' Cons.prems(3) show ?thesis by auto
  next
    case False
    with Cons.prems(2) t' have "e' \<in> set u" by simp
    from Cons.IH [OF u this Cons.prems(3)] show ?thesis by auto
  qed
qed

lemma cleared_unique: "cleared t t' \<Longrightarrow> uniqueNames t \<Longrightarrow> uniqueNames t'"
proof (induction t arbitrary: t')
  case Nil
  then show ?case by (simp add: uniqueNames_def)
next
  case (Cons e t)
  from Cons.prems(1) obtain e' u where t': "t' = e' # u"
    and e': "e' = e \<or> e' = e\<lparr>inUse := False\<rparr>" and u: "cleared t u"
    by (auto simp: cleared_Cons)
  from Cons.prems(2) have "uniqueNames t"
    by (simp add: uniqueNames_def split: if_splits)
  with Cons.IH u have uu: "uniqueNames u" by simp
  show ?case
  proof (cases "inUse e'")
    case False
    with uu t' show ?thesis by (simp add: uniqueNames_def)
  next
    case True
    with e' have eq: "e' = e" and ie: "inUse e" by auto
    from Cons.prems(2) ie have fresh: "name e \<notin> name ` {x \<in> set t. inUse x}"
      by (auto simp: uniqueNames_def)
    have "name e \<notin> name ` {x \<in> set u. inUse x}"
    proof
      assume "name e \<in> name ` {x \<in> set u. inUse x}"
      then obtain x where x: "x \<in> set u" "inUse x" and nx: "name x = name e" by auto
      from cleared_names [OF u x] obtain y where y: "y \<in> set t" "inUse y" "name y = name x"
        by auto
      from y(1,2) have "name y \<in> name ` {x \<in> set t. inUse x}" by blast
      with y(3) nx fresh show False by simp
    qed
    with uu t' eq ie show ?thesis by (auto simp: uniqueNames_def)
  qed
qed

lemma FindIndex_cleared_None:
  "cleared t t' \<Longrightarrow> FindIndex t nm = None \<Longrightarrow> FindIndex t' nm = None"
  by (induction t arbitrary: t') (auto simp: cleared_Cons split: if_splits)

text \<open>In a table with unique names, clearing entries makes lookups fail or leaves them.\<close>

lemma Directory_Find_cleared:
  "cleared t t' \<Longrightarrow> uniqueNames t \<Longrightarrow>
   Directory_Find t' nm = Directory_Find t nm \<or> Directory_Find t' nm = -1"
proof (induction t arbitrary: t')
  case Nil
  then show ?case by simp
next
  case (Cons e t)
  from Cons.prems(1) obtain e' u where t': "t' = e' # u"
    and e': "e' = e \<or> e' = e\<lparr>inUse := False\<rparr>" and u: "cleared t u"
    by (auto simp: cleared_Cons)
  from Cons.prems(2) have ut: "uniqueNames t"
    by (simp add: uniqueNames_def split: if_splits)
  have shift: "Directory_Find (x # xs) nm =
      (if inUse x \<and> name x = nm then sector x else Directory_Find xs nm)" for x xs
    by (simp add: Directory_Find_def split: option.split)
  show ?case
  proof (cases "inUse e \<and> name e = nm")
    case False
    with Cons.IH [OF u ut] e' show ?thesis
      unfolding t' shift by auto
  next
    case True
    then have "nm \<notin> name ` {x \<in> set t. inUse x}"
      using Cons.prems(2) by (auto simp: uniqueNames_def)
    then have "FindIndex t nm = None" by (auto simp: FindIndex_None)
    with u have "FindIndex u nm = None" by (rule FindIndex_cleared_None)
    then have "Directory_Find u nm = -1" by (simp add: Directory_Find_def)
    with True e' show ?thesis
      unfolding t' shift by auto
  qed
qed

lemma Directory_Remove_gone:
  "uniqueNames t \<Longrightarrow> Directory_Find (snd (Directory_Remove t nm)) nm = -1"
proof (induction t)
  case Nil
  show ?case by (simp add: Directory_Remove_def Directory_Find_def)
next
  case (Cons e t)
  from Cons.prems have ut: "uniqueNames t"
    by (simp add: uniqueNames_def split: if_splits)
  show ?case
  proof (cases "inUse e \<and> name e = nm")
    case True
    then have "nm \<notin> name ` {x \<in> set t. inUse x}"
      using Cons.prems by (auto simp: uniqueNames_def)
    then have "FindIndex t nm = None" by (auto simp: FindIndex_None)
    with True show ?thesis
      by (simp add: Directory_Remove_def Directory_Find_def)
  next
    case False
    with Cons.IH [OF ut] show ?thesis
      by (auto simp: Directory_Remove_def Directory_Find_def split: option.splits)
  qed
qed

text \<open>\<open>FindSubDirectory\<close> computes \<open>resolve\<close> on the tables of the disk.\<close>

lemma FindSubDirectory_loop_resolve:
  "curDirectory = tables st (hdrSector curDirFile) \<Longrightarrow>
   (fst (FindSubDirectory_loop curCut rest curDirFile curDirectory nameBuf st) = None \<longrightarrow>
      resolveLoop (tables st) curCut rest (hdrSector curDirFile) = None) \<and>
   (\<forall>h. fst (FindSubDirectory_loop curCut rest curDirFile curDirectory nameBuf st) = Some h \<longrightarrow>
        resolveLoop (tables st) curCut rest (hdrSector curDirFile) =
          Some (hdrSector h,
                buffers (snd (FindSubDirectory_loop curCut rest curDirFile curDirectory
                                nameBuf st)) nameBuf))"
proof (induction curCut rest curDirFile curDirectory nameBuf st
       rule: FindSubDirectory_loop.induct)
  case (1 curCut rest curDirFile curDirectory nameBuf st)
  note dir = "1.prems"
  show ?case
  proof (cases "strtok rest")
    case None
    then have L: "FindSubDirectory_loop curCut rest curDirFile curDirectory nameBuf st =
        (Some curDirFile, st\<lparr>buffers := (buffers st)(nameBuf := curCut)\<rparr>)"
      by (subst FindSubDirectory_loop.simps) simp
    from None have R: "resolveLoop (tables st) curCut rest (hdrSector curDirFile) =
        Some (hdrSector curDirFile, curCut)"
      by (subst resolveLoop.simps) simp
    show ?thesis unfolding L R by simp
  next
    case (Some p)
    obtain nextCut rest' where p: "p = (nextCut, rest')" by (cases p)
    show ?thesis
    proof (cases "Directory_Find curDirectory curCut = -1")
      case True
      with Some p have L: "FindSubDirectory_loop curCut rest curDirFile curDirectory nameBuf st =
          (None, deleteUnlessRoot st curDirFile)"
        by (subst FindSubDirectory_loop.simps) simp
      from True Some p dir
      have R: "resolveLoop (tables st) curCut rest (hdrSector curDirFile) = None"
        by (subst resolveLoop.simps) simp
      show ?thesis unfolding L R by simp
    next
      case False
      define st1 where "st1 = deleteUnlessRoot st curDirFile"
      define nf where "nf = newOpenFile st1 (Directory_Find curDirectory curCut)"
      have nf: "hdrSector (fst nf) = Directory_Find curDirectory curCut"
        "tables (snd nf) = tables st"
        by (simp_all add: nf_def st1_def)
      have step: "FindSubDirectory_loop curCut rest curDirFile curDirectory nameBuf st =
          FindSubDirectory_loop nextCut rest' (fst nf)
                  (tables (snd nf) (hdrSector (fst nf))) nameBuf (snd nf)"
        using Some p False
        by (subst FindSubDirectory_loop.simps)
           (simp add: Let_def st1_def nf_def case_prod_beta)
      have rstep: "resolveLoop (tables st) curCut rest (hdrSector curDirFile) =
          resolveLoop (tables st) nextCut rest' (Directory_Find curDirectory curCut)"
        using Some p False dir
        by (subst resolveLoop.simps) (simp add: Let_def)
      from "1.IH" [OF Some p [symmetric] refl False st1_def nf_def, of "fst nf" "snd nf"]
      show ?thesis
        unfolding step rstep by (simp add: nf)
    qed
  qed
qed

lemma FindSubDirectory_resolve:
  "(fst (FindSubDirectory nameBuf st) = None \<longrightarrow>
      resolve (tables st) (buffers st nameBuf) = None) \<and>
   (\<forall>h. fst (FindSubDirectory nameBuf st) = Some h \<longrightarrow>
       resolve (tables st) (buffers st nameBuf) =
         Some (hdrSector h, buffers (snd (FindSubDirectory nameBuf st)) nameBuf))"
proof (cases "strtok (buffers st nameBuf)")
  case None
  then show ?thesis by (simp add: FindSubDirectory_def resolve_def)
next
  case (Some p)
  obtain c r where p: "p = (c, r)" by (cases p)
  define st0 where "st0 = st\<lparr>buffers := (buffers st)
      (nameBuf := takeWhile (\<lambda>c. c = CHR ''/'') (buffers st nameBuf) @ c)\<rparr>"
  have t0: "tables st0 = tables st" by (simp add: st0_def)
  from FindSubDirectory_loop_resolve [of "tables st DirectorySector" st0 DirectoryFile c r nameBuf]
  show ?thesis
    using Some p by (simp add: FindSubDirectory_def resolve_def t0 st0_def [symmetric])
qed

text \<open>
  On a disk whose directories have unique names, clearing entries makes a path stop
  resolving or leaves its resolution as it was.
\<close>

lemma resolveLoop_cleared:
  "\<forall>k. uniqueNames (T k) \<Longrightarrow> \<forall>k. cleared (T k) (T' k) \<Longrightarrow>
   resolveLoop T' curCut rest cur = None \<or>
   resolveLoop T' curCut rest cur = resolveLoop T curCut rest cur"
proof (induction T' curCut rest cur rule: resolveLoop.induct)
  case (1 T' curCut rest cur)
  from "1.prems" have u: "uniqueNames (T k)" and c: "cleared (T k) (T' k)" for k
    by simp_all
  show ?case
  proof (cases "strtok rest")
    case None
    then have "resolveLoop T' curCut rest cur = Some (cur, curCut)"
      "resolveLoop T curCut rest cur = Some (cur, curCut)"
      by (subst resolveLoop.simps, simp)+
    then show ?thesis by simp
  next
    case (Some p)
    obtain nextCut rest' where p: "p = (nextCut, rest')" by (cases p)
    show ?thesis
    proof (cases "Directory_Find (T' cur) curCut = -1")
      case True
      with Some p have "resolveLoop T' curCut rest cur = None"
        by (subst resolveLoop.simps) simp
      then show ?thesis by simp
    next
      case False
      with Directory_Find_cleared [OF c u, of cur curCut]
      have same: "Directory_Find (T' cur) curCut = Directory_Find (T cur) curCut" by simp
      have a: "resolveLoop T' curCut rest cur =
               resolveLoop T' nextCut rest' (Directory_Find (T' cur) curCut)"
        using Some p False by (subst resolveLoop.simps) (simp add: Let_def)
      have b: "resolveLoop T curCut rest cur =
               resolveLoop T nextCut rest' (Directory_Find (T' cur) curCut)"
        using Some p False same by (subst resolveLoop.simps) (simp add: Let_def)
      from "1.IH" [OF Some p [symmetric] refl False "1.prems"]
      show ?thesis unfolding a b .
    qed
  qed
qed


lemma resolve_cleared:
  "\<forall>k. uniqueNames (T k) \<Longrightarrow> \<forall>k. cleared (T k) (T' k) \<Longrightarrow>
   resolve T' path = None \<or> resolve T' path = resolve T path"
  using resolveLoop_cleared [of T T']
  by (auto simp: resolve_def split: option.splits)

text \<open>One step of \<open>Remove\<close>, with the results of path resolution named.\<close>

lemma RemoveFuel_Suc_unresolved:
  assumes "length (buffers st p) < 1000"
    and "fst (FindSubDirectory (stackTop st) (enterFrame st p 2)) = None"
  shows "RemoveFuel (Suc fuel) recursive p st =
           (Inr False, leaveFrame st (snd (FindSubDirectory (stackTop st) (enterFrame st p 2))))"
  using assms by (simp add: Let_def case_prod_beta)

lemma RemoveFuel_Suc_resolved:
  fixes st :: FileSystem and p fuel :: nat and recursive :: bool and curDirFile :: OpenFile
  defines "st1 \<equiv> snd (FindSubDirectory (stackTop st) (enterFrame st p 2))"
  defines "nm \<equiv> buffers st1 (stackTop st)"
  defines "directory \<equiv> tables st (hdrSector curDirFile)"
  defines "s \<equiv> Directory_Find directory nm"
  defines "kids \<equiv> (if Directory_isDir directory nm \<and> recursive
                       then RemoveTargetChildren (RemoveFuel fuel True) p (stackTop st + 1) s st1
                       else (None, st1))"
  assumes len: "length (buffers st p) < 1000"
    and found: "fst (FindSubDirectory (stackTop st) (enterFrame st p 2)) = Some curDirFile"
  shows "RemoveFuel (Suc fuel) recursive p st =
          (if s = -1 then (Inr False, leaveFrame st (deleteUnlessRoot st1 curDirFile))
           else case fst kids of
                  Some e \<Rightarrow> (Inl e, leaveFrame st (snd kids))
                | None \<Rightarrow> (Inr True,
                     leaveFrame st (deleteUnlessRoot
                       (RemoveEntry (snd kids) curDirFile directory nm s) curDirFile)))"
  using len found
  unfolding kids_def s_def directory_def nm_def st1_def
  by (auto simp: Let_def case_prod_beta FindSubDirectory_enterFrame_disk split: option.split)

lemma RemoveChildren_onlyClears:
  assumes rm: "onlyClears rm"
  shows "headers (snd (RemoveChildren rm tar offset es st)) = headers st \<and>
         (\<forall>k. cleared (tables st k) (tables (snd (RemoveChildren rm tar offset es st)) k))"
proof (induction es arbitrary: st)
  case Nil
  show ?case by (simp add: cleared_refl)
next
  case (Cons e es)
  show ?case
  proof (cases "inUse e \<and> \<not> offset + 1 + length (name e) \<ge> 1000")
    case False
    then show ?thesis using Cons.IH [of st] by (auto simp: cleared_refl)
  next
    case True
    define st1 where "st1 = st\<lparr>buffers := (buffers st)
                          (tar := take (offset + 1) (buffers st tar) @ name e)\<rparr>"
    have s1: "headers st1 = headers st" "tables st1 = tables st"
      by (simp_all add: st1_def)
    from rm have r: "headers (snd (rm tar st1)) = headers st1"
      "\<And>k. cleared (tables st1 k) (tables (snd (rm tar st1)) k)"
      by (simp_all add: onlyClears_def)
    show ?thesis
    proof (cases "fst (rm tar st1)")
      case (Inl err)
      then have "RemoveChildren rm tar offset (e # es) st = (Some err, snd (rm tar st1))"
        using True unfolding st1_def by (simp add: Let_def case_prod_beta)
      then show ?thesis using r s1 by simp
    next
      case (Inr removed)
      then have "RemoveChildren rm tar offset (e # es) st =
                 RemoveChildren rm tar offset es (snd (rm tar st1))"
        using True unfolding st1_def by (simp add: Let_def case_prod_beta)
      then show ?thesis
        using Cons.IH [of "snd (rm tar st1)"] r s1 by (auto intro: cleared_trans)
    qed
  qed
qed

lemma RemoveTargetChildren_onlyClears:
  assumes rm: "onlyClears rm"
  shows "headers (snd (RemoveTargetChildren rm pathName tar s st)) = headers st \<and>
         (\<forall>k. cleared (tables st k) (tables (snd (RemoveTargetChildren rm pathName tar s st)) k))"
proof -
  define sb where "sb = (snd (newOpenFile st s))
        \<lparr>buffers := (buffers st)(tar := buffers st pathName @ ''/'')\<rparr>"
  have sb: "headers sb = headers st" "tables sb = tables st"
    by (simp_all add: sb_def)
  have eq: "snd (RemoveTargetChildren rm pathName tar s st) =
      deleteOpenFile (snd (RemoveChildren rm tar (length (buffers st pathName)) (tables st s) sb))
        (Opened (nextFile st) s)"
    by (simp add: RemoveTargetChildren_def Let_def case_prod_beta sb_def)
  show ?thesis
    unfolding eq
    using RemoveChildren_onlyClears [OF rm, of tar "length (buffers st pathName)" "tables st s" sb]
      sb
    by simp
qed

lemma RemoveEntry_tables:
  "tables (RemoveEntry st f d nm s) = (tables st)(hdrSector f := snd (Directory_Remove d nm))"
  "freeMapData (RemoveEntry st f d nm s) = Clear (Deallocate (headers st s) (freeMapData st)) s"
  by (simp_all add: RemoveEntry_def Let_def writeDirectory_def writeFreeMap_def)

lemma RemoveFuel_onlyClears: "onlyClears (RemoveFuel fuel recursive)"
proof (induction fuel arbitrary: recursive)
  case 0
  show ?case by (simp add: onlyClears_def cleared_refl)
next
  case (Suc fuel)
  have "headers (snd (RemoveFuel (Suc fuel) recursive p st)) = headers st \<and>
        (\<forall>k. cleared (tables st k) (tables (snd (RemoveFuel (Suc fuel) recursive p st)) k))"
    for p st
  proof (cases "length (buffers st p) < 1000")
    case False
    then show ?thesis by (simp add: cleared_refl)
  next
    case True
    define r where "r = FindSubDirectory (stackTop st) (enterFrame st p 2)"
    have r1: "headers (snd r) = headers st" "tables (snd r) = tables st"
      by (simp_all add: r_def FindSubDirectory_enterFrame_disk)
    show ?thesis
    proof (cases "fst r")
      case None
      then show ?thesis
        unfolding RemoveFuel_Suc_unresolved [OF True None [unfolded r_def]]
        using r1 by (simp add: cleared_refl r_def)
    next
      case (Some curDirFile)
      define nm where "nm = buffers (snd r) (stackTop st)"
      define directory where "directory = tables st (hdrSector curDirFile)"
      define s where "s = Directory_Find directory nm"
      define kids where "kids =
          (if Directory_isDir directory nm \<and> recursive
           then RemoveTargetChildren (RemoveFuel fuel True) p (stackTop st + 1) s (snd r)
           else (None, snd r))"
      have k: "headers (snd kids) = headers st"
        "\<And>k. cleared (tables st k) (tables (snd kids) k)"
        using RemoveTargetChildren_onlyClears [OF Suc.IH [of True], of p "stackTop st + 1" s "snd r"]
          r1
        by (simp_all add: kids_def cleared_refl)
      have res: "RemoveFuel (Suc fuel) recursive p st =
          (if s = -1 then (Inr False, leaveFrame st (deleteUnlessRoot (snd r) curDirFile))
           else case fst kids of
                  Some e \<Rightarrow> (Inl e, leaveFrame st (snd kids))
                | None \<Rightarrow> (Inr True,
                     leaveFrame st (deleteUnlessRoot
                       (RemoveEntry (snd kids) curDirFile directory nm s) curDirFile)))"
        unfolding kids_def s_def directory_def nm_def r_def
        by (rule RemoveFuel_Suc_resolved [OF True Some [unfolded r_def]])
      have last: "cleared (tables st k')
          (((tables (snd kids))(hdrSector curDirFile := snd (Directory_Remove directory nm))) k')"
        for k'
        using k(2) [of k'] cleared_Directory_Remove [of directory nm]
        by (simp add: directory_def)
      show ?thesis
        unfolding res using r1 k last
        by (simp add: RemoveEntry_tables cleared_refl split: option.split)
    qed
  qed
  then show ?case by (simp add: onlyClears_def)
qed

lemma Test_Clear_same: "\<not> Test (Clear m s) s"
  by (simp add: Test_def Clear_def)

lemma Test_Clear_other: "\<not> Test m x \<Longrightarrow> \<not> Test (Clear m s) x"
proof (cases "0 \<le> s \<and> nat s < length m")
  case True
  then show "\<not> Test m x \<Longrightarrow> \<not> Test (Clear m s) x"
    by (auto simp: Test_def Clear_def nth_list_update)
next
  case False
  then have "Clear m s = m" by (auto simp: Clear_def not_less list_update_beyond)
  then show "\<not> Test m x \<Longrightarrow> \<not> Test (Clear m s) x" by simp
qed

lemma Test_foldl_Clear_other: "\<not> Test m x \<Longrightarrow> \<not> Test (foldl Clear m xs) x"
  by (induction xs arbitrary: m) (simp_all add: Test_Clear_other)

lemma Test_foldl_Clear: "x \<in> set xs \<Longrightarrow> \<not> Test (foldl Clear m xs) x"
proof (induction xs arbitrary: m)
  case Nil
  then show ?case by simp
next
  case (Cons a xs)
  show ?case
  proof (cases "x = a")
    case True
    then show ?thesis
      using Test_foldl_Clear_other [OF Test_Clear_same, of m a xs] by simp
  next
    case False
    with Cons show ?thesis by simp
  qed
qed

lemma Test_Deallocate: "x \<in> set (dataSectors hdr) \<Longrightarrow> \<not> Test (Deallocate hdr m) x"
  by (simp add: Deallocate_def Test_foldl_Clear)

lemma resolve_enterFrame:
  "(fst (FindSubDirectory (stackTop st) (enterFrame st p n)) = None \<longrightarrow>
      resolve (tables st) (buffers st p) = None) \<and>
   (\<forall>h. fst (FindSubDirectory (stackTop st) (enterFrame st p n)) = Some h \<longrightarrow>
       resolve (tables st) (buffers st p) =
         Some (hdrSector h,
               buffers (snd (FindSubDirectory (stackTop st) (enterFrame st p n))) (stackTop st)))"
  using FindSubDirectory_resolve [of "stackTop st" "enterFrame st p n"] by simp

text \<open>
  The result of \<open>Remove\<close> and the state after a successful call. Let the path fit the
  path array and lie in an array of the caller.
  \<^item> \<open>Remove\<close> returns false exactly when the target is not found: the parent path does
    not resolve, or the terminal name is not in the parent directory.
  \<^item> When the target is found \<open>Remove\<close> returns true, unless it was asked to empty a
    directory and a path in that directory does not fit the path array.
  \<^item> When \<open>Remove\<close> returns true, the entry of the target is out of the parent
    directory on disk, the header sector of the target and every data sector its header
    lists are free in the free map on disk, and, on a disk whose directories have unique
    names, \<open>Open\<close> of the same path returns null.
\<close>

lemma Remove_result:
  assumes caller: "pathName < stackTop st" and len: "length (buffers st pathName) < 1000"
  shows
    "(fst (Remove recursive pathName st) = Inr False \<longleftrightarrow>
        (\<forall>k nm. resolve (tables st) (buffers st pathName) = Some (k, nm) \<longrightarrow>
                Directory_Find (tables st k) nm = -1)) \<and>
     (\<forall>k nm. resolve (tables st) (buffers st pathName) = Some (k, nm) \<longrightarrow>
        Directory_Find (tables st k) nm \<noteq> -1 \<longrightarrow>
        fst (Remove recursive pathName st) = Inr True \<or>
        recursive \<and> Directory_isDir (tables st k) nm \<and>
        fst (Remove recursive pathName st) = Inl BufferOverflow) \<and>
     (fst (Remove recursive pathName st) = Inr True \<longrightarrow>
        (\<exists>k nm. resolve (tables st) (buffers st pathName) = Some (k, nm) \<and>
           tables (snd (Remove recursive pathName st)) k =
             snd (Directory_Remove (tables st k) nm) \<and>
           \<not> Test (freeMapData (snd (Remove recursive pathName st)))
                 (Directory_Find (tables st k) nm) \<and>
           (\<forall>d \<in> set (dataSectors (headers st (Directory_Find (tables st k) nm))).
              \<not> Test (freeMapData (snd (Remove recursive pathName st))) d) \<and>
           ((\<forall>k. uniqueNames (tables st k)) \<longrightarrow>
              fst (Open pathName (snd (Remove recursive pathName st))) = Inr None)))"
proof -
  define r where "r = FindSubDirectory (stackTop st) (enterFrame st pathName 2)"
  note rs = resolve_enterFrame [of st pathName 2, folded r_def]
  show ?thesis
  proof (cases "fst r")
    case None
    with rs have "resolve (tables st) (buffers st pathName) = None" by simp
    moreover have "fst (Remove recursive pathName st) = Inr False"
      unfolding Remove_step RemoveFuel_Suc_unresolved [OF len None [unfolded r_def]] by simp
    ultimately show ?thesis by simp
  next
    case (Some curDirFile)
    define nm where "nm = buffers (snd r) (stackTop st)"
    define k where "k = hdrSector curDirFile"
    define directory where "directory = tables st k"
    define s where "s = Directory_Find directory nm"
    define kids where "kids =
          (if Directory_isDir directory nm \<and> recursive
           then RemoveTargetChildren (RemoveFuel 999 True) pathName (stackTop st + 1) s (snd r)
           else (None, snd r))"
    from rs Some have res: "resolve (tables st) (buffers st pathName) = Some (k, nm)"
      by (simp add: k_def nm_def)
    have step: "Remove recursive pathName st =
          (if s = -1 then (Inr False, leaveFrame st (deleteUnlessRoot (snd r) curDirFile))
           else case fst kids of
                  Some e \<Rightarrow> (Inl e, leaveFrame st (snd kids))
                | None \<Rightarrow> (Inr True,
                     leaveFrame st (deleteUnlessRoot
                       (RemoveEntry (snd kids) curDirFile directory nm s) curDirFile)))"
      unfolding Remove_step kids_def s_def directory_def k_def nm_def r_def
      by (rule RemoveFuel_Suc_resolved [OF len Some [unfolded r_def]])
    have false_iff: "fst (Remove recursive pathName st) = Inr False \<longleftrightarrow> s = -1"
      unfolding step by (simp split: option.split)
    have found_part: "fst (Remove recursive pathName st) = Inr True \<or>
        recursive \<and> Directory_isDir directory nm \<and>
        fst (Remove recursive pathName st) = Inl BufferOverflow"
      if found: "s \<noteq> -1"
    proof (cases "fst kids")
      case None
      with found show ?thesis unfolding step by simp
    next
      case (Some e)
      with found have res_e: "fst (Remove recursive pathName st) = Inl e"
        unfolding step by simp
      with Remove_fuel_suffices [OF caller, of recursive] have "e \<noteq> OutOfFuel" by auto
      then have e: "e = BufferOverflow" by (cases e) simp_all
      have "Directory_isDir directory nm \<and> recursive"
      proof (rule ccontr)
        assume "\<not> (Directory_isDir directory nm \<and> recursive)"
        then have "kids = (None, snd r)" unfolding kids_def by (rule if_not_P)
        with Some show False by simp
      qed
      with res_e e show ?thesis by simp
    qed
    have true_part: "tables (snd (Remove recursive pathName st)) k =
             snd (Directory_Remove directory nm) \<and>
           \<not> Test (freeMapData (snd (Remove recursive pathName st))) s \<and>
           (\<forall>d \<in> set (dataSectors (headers st s)).
              \<not> Test (freeMapData (snd (Remove recursive pathName st))) d) \<and>
           ((\<forall>k. uniqueNames (tables st k)) \<longrightarrow>
              fst (Open pathName (snd (Remove recursive pathName st))) = Inr None)"
      if ok: "fst (Remove recursive pathName st) = Inr True"
    proof -
      from ok have found: "s \<noteq> -1" and noerr: "fst kids = None"
        unfolding step by (auto split: if_splits option.splits)
      define st' where "st' = snd (Remove recursive pathName st)"
      have st': "st' = leaveFrame st (deleteUnlessRoot
                       (RemoveEntry (snd kids) curDirFile directory nm s) curDirFile)"
        unfolding st'_def step using found noerr by simp
      have hk: "headers (snd kids) = headers st"
        using RemoveTargetChildren_onlyClears [OF RemoveFuel_onlyClears [of 999 True],
                of pathName "stackTop st + 1" s "snd r"]
        by (simp add: kids_def r_def FindSubDirectory_enterFrame_disk)
      have fm: "freeMapData st' = Clear (Deallocate (headers st s) (freeMapData (snd kids))) s"
        unfolding st' by (simp add: RemoveEntry_tables hk)
      have free: "\<not> Test (freeMapData st') s"
        "\<forall>d \<in> set (dataSectors (headers st s)). \<not> Test (freeMapData st') d"
        unfolding fm by (simp_all add: Test_Clear_same Test_Clear_other Test_Deallocate)
      have tb: "tables st' k = snd (Directory_Remove directory nm)"
        unfolding st' by (simp add: RemoveEntry_tables k_def)
      have cl: "\<forall>k. cleared (tables st k) (tables st' k)"
        using RemoveFuel_onlyClears [of 1000 recursive]
        by (simp add: onlyClears_def st'_def Remove_def)
      have frame: "buffers st' pathName = buffers st pathName" "stackTop st' = stackTop st"
        using RemoveFuel_frame [of 1000 recursive] caller
        by (simp_all add: keepsFrame_def st'_def Remove_def)
      have opn: "fst (Open pathName st') = Inr None" if u: "\<forall>k. uniqueNames (tables st k)"
      proof -
        from frame len have len': "length (buffers st' pathName) < 1000" by simp
        define r' where "r' = FindSubDirectory (stackTop st') (enterFrame st' pathName 1)"
        note rs' = resolve_enterFrame [of st' pathName 1, folded r'_def, unfolded frame(1)]
        show ?thesis
        proof (cases "fst r'")
          case None
          then show ?thesis
            unfolding Open_unfold [OF len'] r'_def by (simp add: Let_def)
        next
          case (Some h)
          with rs' have "resolve (tables st') (buffers st pathName) =
              Some (hdrSector h, buffers (snd r') (stackTop st'))" by simp
          with resolve_cleared [OF u cl, of "buffers st pathName"] res
          have h: "hdrSector h = k" "buffers (snd r') (stackTop st') = nm" by simp_all
          from u have "uniqueNames directory" by (simp add: directory_def)
          then have "Directory_Find (tables st' k) nm = -1"
            unfolding tb by (rule Directory_Remove_gone)
          with Some h show ?thesis
            unfolding Open_unfold [OF len'] r'_def [symmetric]
            by (simp add: Let_def)
        qed
      qed
      from tb free opn show ?thesis by (simp add: st'_def)
    qed
    show ?thesis
      using res false_iff found_part true_part
      by (auto simp: s_def directory_def)
  qed
qed

text \<open>More fuel changes nothing once the fuel was enough.\<close>

lemma RemoveChildren_more_fuel:
  assumes same: "\<And>s. fst (rm tar s) \<noteq> Inl OutOfFuel \<Longrightarrow> rm' tar s = rm tar s"
  shows "fst (RemoveChildren rm tar offset es st) \<noteq> Some OutOfFuel \<Longrightarrow>
         RemoveChildren rm' tar offset es st = RemoveChildren rm tar offset es st"
proof (induction es arbitrary: st)
  case Nil
  show ?case by simp
next
  case (Cons e es)
  show ?case
  proof (cases "inUse e \<and> \<not> offset + 1 + length (name e) \<ge> 1000")
    case False
    then show ?thesis using Cons by auto
  next
    case True
    define st1 where "st1 = st\<lparr>buffers := (buffers st)
                          (tar := take (offset + 1) (buffers st tar) @ name e)\<rparr>"
    have unf: "RemoveChildren f tar offset (e # es) st =
        (case fst (f tar st1) of
           Inl err \<Rightarrow> (Some err, snd (f tar st1))
         | Inr removed \<Rightarrow> RemoveChildren f tar offset es (snd (f tar st1)))" for f
      using True unfolding st1_def by (simp add: Let_def case_prod_beta split: sum.split)
    have ok: "fst (rm tar st1) \<noteq> Inl OutOfFuel"
      using Cons.prems unfolding unf [of rm] by (auto split: sum.splits)
    then have eq: "rm' tar st1 = rm tar st1" by (rule same)
    show ?thesis
    proof (cases "fst (rm tar st1)")
      case (Inl err)
      then show ?thesis unfolding unf eq by simp
    next
      case (Inr removed)
      with Cons.prems have "fst (RemoveChildren rm tar offset es (snd (rm tar st1))) \<noteq> Some OutOfFuel"
        unfolding unf [of rm] by simp
      from Cons.IH [OF this] Inr show ?thesis unfolding unf eq by simp
    qed
  qed
qed

lemma RemoveFuel_more_fuel:
  "fst (RemoveFuel fuel recursive p st) \<noteq> Inl OutOfFuel \<Longrightarrow>
   RemoveFuel (Suc fuel) recursive p st = RemoveFuel fuel recursive p st"
proof (induction fuel arbitrary: recursive p st)
  case 0
  then show ?case by simp
next
  case (Suc fuel)
  show ?case
  proof (cases "length (buffers st p) < 1000")
    case False
    then show ?thesis by simp
  next
    case True
    define r where "r = FindSubDirectory (stackTop st) (enterFrame st p 2)"
    show ?thesis
    proof (cases "fst r")
      case None
      show ?thesis
        by (simp only: RemoveFuel_Suc_unresolved [OF True None [unfolded r_def]])
    next
      case (Some curDirFile)
      define nm where "nm = buffers (snd r) (stackTop st)"
      define directory where "directory = tables st (hdrSector curDirFile)"
      define s where "s = Directory_Find directory nm"
      define kids where "kids f =
          (if Directory_isDir directory nm \<and> recursive
           then RemoveTargetChildren f p (stackTop st + 1) s (snd r)
           else (None, snd r))" for f
      have res: "RemoveFuel (Suc n) recursive p st =
          (if s = -1 then (Inr False, leaveFrame st (deleteUnlessRoot (snd r) curDirFile))
           else case fst (kids (RemoveFuel n True)) of
                  Some e \<Rightarrow> (Inl e, leaveFrame st (snd (kids (RemoveFuel n True))))
                | None \<Rightarrow> (Inr True,
                     leaveFrame st (deleteUnlessRoot
                       (RemoveEntry (snd (kids (RemoveFuel n True))) curDirFile directory nm s)
                       curDirFile)))" for n
        unfolding kids_def s_def directory_def nm_def r_def
        by (rule RemoveFuel_Suc_resolved [OF True Some [unfolded r_def]])
      show ?thesis
      proof (cases "s \<noteq> -1 \<and> Directory_isDir directory nm \<and> recursive")
        case False
        then show ?thesis unfolding res by (auto simp: kids_def)
      next
        case True
        define sb where "sb = (snd (newOpenFile (snd r) s))
          \<lparr>buffers := (buffers (snd r))(stackTop st + 1 := buffers (snd r) p @ ''/'')\<rparr>"
        have k: "kids f =
            (fst (RemoveChildren f (stackTop st + 1) (length (buffers (snd r) p))
                    (tables (snd r) s) sb),
             deleteOpenFile (snd (RemoveChildren f (stackTop st + 1) (length (buffers (snd r) p))
                    (tables (snd r) s) sb)) (Opened (nextFile (snd r)) s))" for f
          using True
          by (simp add: kids_def RemoveTargetChildren_def Let_def case_prod_beta sb_def)
        from Suc.prems True have "fst (kids (RemoveFuel fuel True)) \<noteq> Some OutOfFuel"
          unfolding res [of fuel] by (auto split: option.splits)
        then have "fst (RemoveChildren (RemoveFuel fuel True) (stackTop st + 1)
                    (length (buffers (snd r) p)) (tables (snd r) s) sb) \<noteq> Some OutOfFuel"
          unfolding k by simp
        then have "RemoveChildren (RemoveFuel (Suc fuel) True) (stackTop st + 1)
                    (length (buffers (snd r) p)) (tables (snd r) s) sb =
                   RemoveChildren (RemoveFuel fuel True) (stackTop st + 1)
                    (length (buffers (snd r) p)) (tables (snd r) s) sb"
          by (rule RemoveChildren_more_fuel [rotated]) (rule Suc.IH)
        then have keq: "kids (RemoveFuel (Suc fuel) True) = kids (RemoveFuel fuel True)"
          unfolding k by simp
        show ?thesis unfolding res keq by (rule refl)
      qed
    qed
  qed
qed

lemma RemoveChildren_Remove:
  assumes tar: "tar < stackTop st" and long: "offset + 1 \<le> length (buffers st tar)"
  shows "RemoveChildren (RemoveFuel 999 True) tar offset es st =
         RemoveChildren (Remove True) tar offset es st"
proof -
  have suff: "fst (RemoveFuel 999 True tar s) \<noteq> Inl OutOfFuel"
    if "tar < stackTop s" "offset + 1 \<le> length (buffers s tar)" for s
    using that by (intro RemoveFuel_suffices) simp_all
  have ok: "fst (RemoveChildren (RemoveFuel 999 True) tar offset es st) \<noteq> Some OutOfFuel"
    using RemoveFuel_frame suff tar long by (intro RemoveChildren_fuel) simp_all
  have "RemoveChildren (RemoveFuel (Suc 999) True) tar offset es st =
        RemoveChildren (RemoveFuel 999 True) tar offset es st"
    using ok by (rule RemoveChildren_more_fuel [rotated]) (rule RemoveFuel_more_fuel)
  moreover have "Remove True = RemoveFuel (Suc 999) True"
    by (simp add: fun_eq_iff Remove_step)
  ultimately show ?thesis by simp
qed

text \<open>The loop of the source does what the words of the specification say.\<close>

lemma RemoveChildren_spec:
  assumes frame: "keepsFrame rm"
  shows "tar < stackTop st \<Longrightarrow> take (length path + 1) (buffers st tar) = path @ ''/'' \<Longrightarrow>
         RemoveChildren rm tar (length path) es st = removeEveryChild_spec rm tar path es st"
proof (induction es arbitrary: st)
  case Nil
  show ?case by simp
next
  case (Cons e es)
  show ?case
  proof (cases "inUse e \<and> \<not> length path + 1 + length (name e) \<ge> 1000")
    case False
    then show ?thesis using Cons by auto
  next
    case True
    define st1 where "st1 = st\<lparr>buffers := (buffers st)(tar := path @ ''/'' @ name e)\<rparr>"
    have st1: "st\<lparr>buffers := (buffers st)
                  (tar := take (length path + 1) (buffers st tar) @ name e)\<rparr> = st1"
      using Cons.prems(2) by (simp add: st1_def)
    from frame have keep: "stackTop (snd (rm tar st1)) = stackTop st1"
      "buffers (snd (rm tar st1)) tar = buffers st1 tar"
      using Cons.prems(1) by (simp_all add: keepsFrame_def st1_def)
    have pre: "tar < stackTop (snd (rm tar st1))"
      "take (length path + 1) (buffers (snd (rm tar st1)) tar) = path @ ''/''"
      using keep Cons.prems(1) by (simp_all add: st1_def)
    have a: "RemoveChildren rm tar (length path) (e # es) st =
        (case fst (rm tar st1) of
           Inl err \<Rightarrow> (Some err, snd (rm tar st1))
         | Inr removed \<Rightarrow> RemoveChildren rm tar (length path) es (snd (rm tar st1)))"
      using True unfolding st1 [symmetric] by (simp add: Let_def case_prod_beta split: sum.split)
    have b: "removeEveryChild_spec rm tar path (e # es) st =
        (case fst (rm tar st1) of
           Inl err \<Rightarrow> (Some err, snd (rm tar st1))
         | Inr removed \<Rightarrow> removeEveryChild_spec rm tar path es (snd (rm tar st1)))"
      using True unfolding st1_def by (simp add: case_prod_beta split: sum.split)
    show ?thesis
      unfolding a b using Cons.IH [OF pre] by (simp split: sum.split)
  qed
qed

text \<open>\<open>Remove\<close> sets no bit of the free map: a sector that is free stays free.\<close>

lemma Test_Deallocate_other: "\<not> Test m x \<Longrightarrow> \<not> Test (Deallocate hdr m) x"
  by (simp add: Deallocate_def Test_foldl_Clear_other)

lemma RemoveChildren_keepsFree:
  assumes rm: "\<And>p st. \<not> Test (freeMapData st) x \<Longrightarrow> \<not> Test (freeMapData (snd (rm p st))) x"
  shows "\<not> Test (freeMapData st) x \<Longrightarrow>
         \<not> Test (freeMapData (snd (RemoveChildren rm tar offset es st))) x"
proof (induction es arbitrary: st)
  case Nil
  then show ?case by simp
next
  case (Cons e es)
  show ?case
  proof (cases "inUse e \<and> \<not> offset + 1 + length (name e) \<ge> 1000")
    case False
    then show ?thesis using Cons.IH [of st] Cons.prems by auto
  next
    case True
    define st1 where "st1 = st\<lparr>buffers := (buffers st)
                          (tar := take (offset + 1) (buffers st tar) @ name e)\<rparr>"
    have "\<not> Test (freeMapData st1) x" using Cons.prems by (simp add: st1_def)
    then have r: "\<not> Test (freeMapData (snd (rm tar st1))) x" by (rule rm)
    show ?thesis
    proof (cases "fst (rm tar st1)")
      case (Inl err)
      then have "RemoveChildren rm tar offset (e # es) st = (Some err, snd (rm tar st1))"
        using True unfolding st1_def by (simp add: Let_def case_prod_beta)
      then show ?thesis using r by simp
    next
      case (Inr removed)
      then have "RemoveChildren rm tar offset (e # es) st =
                 RemoveChildren rm tar offset es (snd (rm tar st1))"
        using True unfolding st1_def by (simp add: Let_def case_prod_beta)
      then show ?thesis using Cons.IH [OF r] by simp
    qed
  qed
qed

lemma RemoveTargetChildren_keepsFree:
  assumes rm: "\<And>p st. \<not> Test (freeMapData st) x \<Longrightarrow> \<not> Test (freeMapData (snd (rm p st))) x"
    and free: "\<not> Test (freeMapData st) x"
  shows "\<not> Test (freeMapData (snd (RemoveTargetChildren rm pathName tar s st))) x"
proof -
  define sb where "sb = (snd (newOpenFile st s))
        \<lparr>buffers := (buffers st)(tar := buffers st pathName @ ''/'')\<rparr>"
  have sb: "\<not> Test (freeMapData sb) x" using free by (simp add: sb_def)
  have eq: "snd (RemoveTargetChildren rm pathName tar s st) =
      deleteOpenFile (snd (RemoveChildren rm tar (length (buffers st pathName)) (tables st s) sb))
        (Opened (nextFile st) s)"
    by (simp add: RemoveTargetChildren_def Let_def case_prod_beta sb_def)
  show ?thesis
    unfolding eq
    using RemoveChildren_keepsFree [of x rm sb tar "length (buffers st pathName)" "tables st s",
        OF rm sb]
    by simp
qed

lemma RemoveFuel_keepsFree:
  "\<not> Test (freeMapData st) x \<Longrightarrow>
   \<not> Test (freeMapData (snd (RemoveFuel fuel recursive p st))) x"
proof (induction fuel arbitrary: recursive p st)
  case 0
  then show ?case by simp
next
  case (Suc fuel)
  show ?case
  proof (cases "length (buffers st p) < 1000")
    case False
    then show ?thesis using Suc.prems by simp
  next
    case True
    define r where "r = FindSubDirectory (stackTop st) (enterFrame st p 2)"
    have r1: "freeMapData (snd r) = freeMapData st"
      by (simp add: r_def FindSubDirectory_enterFrame_disk)
    show ?thesis
    proof (cases "fst r")
      case None
      then show ?thesis
        unfolding RemoveFuel_Suc_unresolved [OF True None [unfolded r_def]]
        using r1 Suc.prems by (simp add: r_def)
    next
      case (Some curDirFile)
      define nm where "nm = buffers (snd r) (stackTop st)"
      define directory where "directory = tables st (hdrSector curDirFile)"
      define s where "s = Directory_Find directory nm"
      define kids where "kids =
          (if Directory_isDir directory nm \<and> recursive
           then RemoveTargetChildren (RemoveFuel fuel True) p (stackTop st + 1) s (snd r)
           else (None, snd r))"
      have free_r: "\<not> Test (freeMapData (snd r)) x" using Suc.prems r1 by simp
      have k: "\<not> Test (freeMapData (snd kids)) x"
      proof (cases "Directory_isDir directory nm \<and> recursive")
        case True
        then have "kids = RemoveTargetChildren (RemoveFuel fuel True) p (stackTop st + 1) s (snd r)"
          unfolding kids_def by (rule if_P)
        then show ?thesis
          using RemoveTargetChildren_keepsFree [of x "RemoveFuel fuel True" "snd r" p
              "stackTop st + 1" s, OF Suc.IH free_r]
          by simp
      next
        case False
        then have "kids = (None, snd r)" unfolding kids_def by (rule if_not_P)
        then show ?thesis using free_r by simp
      qed
      have res: "RemoveFuel (Suc fuel) recursive p st =
          (if s = -1 then (Inr False, leaveFrame st (deleteUnlessRoot (snd r) curDirFile))
           else case fst kids of
                  Some e \<Rightarrow> (Inl e, leaveFrame st (snd kids))
                | None \<Rightarrow> (Inr True,
                     leaveFrame st (deleteUnlessRoot
                       (RemoveEntry (snd kids) curDirFile directory nm s) curDirFile)))"
        unfolding kids_def s_def directory_def nm_def r_def
        by (rule RemoveFuel_Suc_resolved [OF True Some [unfolded r_def]])
      have last: "\<not> Test (freeMapData (RemoveEntry (snd kids) curDirFile directory nm s)) x"
        using k by (simp add: RemoveEntry_tables Test_Clear_other Test_Deallocate_other)
      show ?thesis
        unfolding res using free_r k last
        by (simp split: option.split)
    qed
  qed
qed

lemma removeEveryChild_keepsFree:
  "\<not> Test (freeMapData st) x \<Longrightarrow>
   \<not> Test (freeMapData (snd (removeEveryChild_spec (Remove True) tar path es st))) x"
proof (induction es arbitrary: st)
  case Nil
  then show ?case by simp
next
  case (Cons e es)
  show ?case
  proof (cases "inUse e \<and> \<not> length (path @ ''/'' @ name e) \<ge> 1000")
    case False
    then show ?thesis using Cons.IH [of st] Cons.prems by auto
  next
    case True
    define st1 where "st1 = st\<lparr>buffers := (buffers st)(tar := path @ ''/'' @ name e)\<rparr>"
    have "\<not> Test (freeMapData st1) x" using Cons.prems by (simp add: st1_def)
    then have r: "\<not> Test (freeMapData (snd (Remove True tar st1))) x"
      unfolding Remove_def by (rule RemoveFuel_keepsFree)
    have unf: "removeEveryChild_spec (Remove True) tar path (e # es) st =
        (case fst (Remove True tar st1) of
           Inl err \<Rightarrow> (Some err, snd (Remove True tar st1))
         | Inr removed \<Rightarrow>
             removeEveryChild_spec (Remove True) tar path es (snd (Remove True tar st1)))"
      using True unfolding st1_def by (simp add: case_prod_beta split: sum.split)
    show ?thesis
      unfolding unf using r Cons.IH [OF r] by (simp split: sum.split)
  qed
qed

lemma Remove_keepsFrame: "keepsFrame (Remove True)"
  using RemoveFuel_frame [of 1000 True] by (simp add: keepsFrame_def Remove_def)

text \<open>
  The recursion of \<open>Remove\<close>. When the target is a directory and \<open>recursive\<close> is true,
  \<open>Remove\<close> opens the target, removes every entry in use of its table by calling
  \<open>Remove(TRUE, path + "/" + childName)\<close>, deletes the handle of the target, and only
  then removes the target itself.
\<close>

lemma Remove_recursion:
  fixes st :: FileSystem and pathName :: nat and curDirFile :: OpenFile
  defines "st1 \<equiv> snd (FindSubDirectory (stackTop st) (enterFrame st pathName 2))"
  defines "nm \<equiv> buffers st1 (stackTop st)"
  defines "directory \<equiv> tables st (hdrSector curDirFile)"
  defines "s \<equiv> Directory_Find directory nm"
  defines "sb \<equiv> (snd (newOpenFile st1 s))
      \<lparr>buffers := (buffers st1)(stackTop st + 1 := buffers st pathName @ ''/'')\<rparr>"
  defines "children \<equiv> removeEveryChild_spec (Remove True) (stackTop st + 1)
                          (buffers st pathName) (tables st s) sb"
  assumes caller: "pathName < stackTop st" and len: "length (buffers st pathName) < 1000"
    and found: "fst (FindSubDirectory (stackTop st) (enterFrame st pathName 2)) = Some curDirFile"
    and target: "s \<noteq> -1" and dir: "Directory_isDir directory nm"
  shows "Remove True pathName st =
     (case fst children of
        Some e \<Rightarrow> (Inl e, leaveFrame st (deleteOpenFile (snd children) (fst (newOpenFile st1 s))))
      | None \<Rightarrow>
          (Inr True,
           leaveFrame st (deleteUnlessRoot
             (RemoveEntry (deleteOpenFile (snd children) (fst (newOpenFile st1 s)))
                curDirFile directory nm s) curDirFile)))"
proof -
  have r1: "stackTop st1 = stackTop st + 2" "buffers st1 pathName = buffers st pathName"
    "tables st1 = tables st"
    using caller
    by (simp_all add: st1_def FindSubDirectory_stackTop FindSubDirectory_buffers
        FindSubDirectory_enterFrame_disk)
  have sb: "stackTop st + 1 < stackTop sb"
    "length (buffers st pathName) + 1 \<le> length (buffers sb (stackTop st + 1))"
    "take (length (buffers st pathName) + 1) (buffers sb (stackTop st + 1)) =
       buffers st pathName @ ''/''"
    by (simp_all add: sb_def r1)
  have loop: "RemoveChildren (RemoveFuel 999 True) (stackTop st + 1)
                (length (buffers st pathName)) (tables st s) sb = children"
    unfolding children_def
    using RemoveChildren_Remove [OF sb(1,2)] RemoveChildren_spec [OF Remove_keepsFrame sb(1,3)]
    by simp
  have kids: "RemoveTargetChildren (RemoveFuel 999 True) pathName (Suc (stackTop st)) s st1 =
      (fst children, deleteOpenFile (snd children) (fst (newOpenFile st1 s)))"
    using loop
    by (simp add: RemoveTargetChildren_def Let_def case_prod_beta sb_def r1)
  show ?thesis
    unfolding Remove_step
      RemoveFuel_Suc_resolved [OF len found, of 999 True, folded st1_def nm_def directory_def s_def]
    using target dir
    by (simp add: kids split: option.split)
qed


text \<open>
  The plain removal. When the target is not a directory, or \<open>recursive\<close> is false,
  \<open>Remove\<close> goes straight to the removal of the target.
\<close>

lemma Remove_plain:
  fixes st :: FileSystem and pathName :: nat and curDirFile :: OpenFile and recursive :: bool
  defines "st1 \<equiv> snd (FindSubDirectory (stackTop st) (enterFrame st pathName 2))"
  defines "nm \<equiv> buffers st1 (stackTop st)"
  defines "directory \<equiv> tables st (hdrSector curDirFile)"
  defines "s \<equiv> Directory_Find directory nm"
  assumes len: "length (buffers st pathName) < 1000"
    and found: "fst (FindSubDirectory (stackTop st) (enterFrame st pathName 2)) = Some curDirFile"
    and target: "s \<noteq> -1" and plain: "\<not> (Directory_isDir directory nm \<and> recursive)"
  shows "Remove recursive pathName st =
     (Inr True,
      leaveFrame st (deleteUnlessRoot (RemoveEntry st1 curDirFile directory nm s) curDirFile))"
proof -
  have kids: "(if Directory_isDir directory nm \<and> recursive
               then RemoveTargetChildren (RemoveFuel 999 True) pathName (stackTop st + 1) s st1
               else (None, st1)) = (None, st1)"
    using plain by (rule if_not_P)
  show ?thesis
    unfolding Remove_step
      RemoveFuel_Suc_resolved [OF len found, of 999 recursive,
        folded st1_def nm_def directory_def s_def] kids
    using target by simp
qed

subsection \<open>Removing the children of a directory\<close>

text \<open>
  The path of a child: when \<open>path\<close> resolves to the entry \<open>nm\<close> of directory \<open>k\<close>, and
  that entry names sector \<open>s\<close>, then \<open>path + "/" + n\<close> resolves to the entry \<open>n\<close> of
  directory \<open>s\<close>, on any disk with the same tables above \<open>s\<close>.
\<close>

lemma strtok_slash: "strtok (CHR ''/'' # s) = strtok s"
  by (simp add: strtok_def)

lemma strtok_valid: "validName n \<Longrightarrow> strtok n = Some (n, [])"
proof -
  assume v: "validName n"
  then obtain c cs where n: "n = c # cs" by (cases n) (simp_all add: validName_def)
  with v have c: "c \<noteq> CHR ''/''" and all: "\<forall>x \<in> set cs. x \<noteq> CHR ''/''"
    by (auto simp: validName_def)
  from all have t: "takeWhile (\<lambda>c. c \<noteq> CHR ''/'') cs = cs"
    and e: "dropWhile (\<lambda>c. c \<noteq> CHR ''/'') cs = []"
    by (simp_all add: takeWhile_eq_all_conv dropWhile_eq_Nil_conv)
  show ?thesis unfolding n using c by (simp add: strtok_def t e)
qed

lemma strtok_append_None:
  assumes "strtok x = None" and "validName n"
  shows "strtok (x @ ''/'' @ n) = Some (n, [])"
proof -
  have "dropWhile (\<lambda>c. c = CHR ''/'') x = []"
    using assms(1) by (simp add: strtok_def split: list.splits)
  then have all: "\<forall>c \<in> set x. c = CHR ''/''" by (simp add: dropWhile_eq_Nil_conv)
  have "dropWhile (\<lambda>c. c = CHR ''/'') (x @ ''/'' @ n) = dropWhile (\<lambda>c. c = CHR ''/'') n"
    using all by (simp add: dropWhile_append2)
  then have "strtok (x @ ''/'' @ n) = strtok n" by (simp add: strtok_def)
  with strtok_valid [OF assms(2)] show ?thesis by simp
qed

lemma strtok_append_Some:
  assumes s: "strtok x = Some (c, r)" and v: "validName n"
  shows "\<exists>r2. strtok (x @ ''/'' @ n) = Some (c, r2) \<and> strtok r2 = strtok (r @ ''/'' @ n)"
proof -
  define t where "t = dropWhile (\<lambda>c. c = CHR ''/'') x"
  have ne: "t \<noteq> []" using s unfolding strtok_def t_def [symmetric] by (cases t) simp_all
  have c: "c = takeWhile (\<lambda>c. c \<noteq> CHR ''/'') t"
    and r: "r = drop 1 (dropWhile (\<lambda>c. c \<noteq> CHR ''/'') t)"
    using s unfolding strtok_def t_def [symmetric] by (cases t; simp)+
  from ne have "\<exists>y \<in> set x. \<not> y = CHR ''/''"
    unfolding t_def by (auto simp: dropWhile_eq_Nil_conv)
  then have d: "dropWhile (\<lambda>c. c = CHR ''/'') (x @ ''/'' @ n) = t @ ''/'' @ n"
    unfolding t_def by (auto simp: dropWhile_append1)
  have full: "strtok (x @ ''/'' @ n) =
      Some (takeWhile (\<lambda>c. c \<noteq> CHR ''/'') (t @ ''/'' @ n),
            drop 1 (dropWhile (\<lambda>c. c \<noteq> CHR ''/'') (t @ ''/'' @ n)))"
    unfolding strtok_def d using ne by (cases t) simp_all
  show ?thesis
  proof (cases "\<exists>y \<in> set t. y = CHR ''/''")
    case True
    then have a: "takeWhile (\<lambda>c. c \<noteq> CHR ''/'') (t @ ''/'' @ n) = takeWhile (\<lambda>c. c \<noteq> CHR ''/'') t"
      and b: "dropWhile (\<lambda>c. c \<noteq> CHR ''/'') (t @ ''/'' @ n) =
              dropWhile (\<lambda>c. c \<noteq> CHR ''/'') t @ ''/'' @ n"
      by (auto simp: takeWhile_append1 dropWhile_append1)
    from True have "dropWhile (\<lambda>c. c \<noteq> CHR ''/'') t \<noteq> []"
      by (auto simp: dropWhile_eq_Nil_conv)
    then have "drop 1 (dropWhile (\<lambda>c. c \<noteq> CHR ''/'') t @ ''/'' @ n) = r @ ''/'' @ n"
      unfolding r by (cases "dropWhile (\<lambda>c. c \<noteq> CHR ''/'') t") simp_all
    then show ?thesis unfolding full a b c by simp
  next
    case False
    then have all: "\<forall>y \<in> set t. y \<noteq> CHR ''/''" by blast
    then have a: "takeWhile (\<lambda>c. c \<noteq> CHR ''/'') (t @ ''/'' @ n) = t"
      and b: "dropWhile (\<lambda>c. c \<noteq> CHR ''/'') (t @ ''/'' @ n) = ''/'' @ n"
      and t: "takeWhile (\<lambda>c. c \<noteq> CHR ''/'') t = t" "dropWhile (\<lambda>c. c \<noteq> CHR ''/'') t = []"
      by (simp_all add: takeWhile_append2 dropWhile_append2 takeWhile_eq_all_conv
          dropWhile_eq_Nil_conv)
    have "r = []" unfolding r t by simp
    then have "strtok (r @ ''/'' @ n) = strtok n" by (simp add: strtok_slash)
    then show ?thesis unfolding full a b c t by simp
  qed
qed

lemma Directory_Find_entry:
  assumes "Directory_Find t nm \<noteq> -1"
  shows "\<exists>e \<in> set t. inUse e \<and> name e = nm \<and> sector e = Directory_Find t nm"
proof (cases "FindIndex t nm")
  case None
  with assms show ?thesis by (simp add: Directory_Find_def)
next
  case (Some i)
  from FindIndex_Some [OF Some] have "t ! i \<in> set t" "inUse (t ! i)" "name (t ! i) = nm"
    by simp_all
  moreover have "Directory_Find t nm = sector (t ! i)" using Some by (simp add: Directory_Find_def)
  ultimately show ?thesis by auto
qed

lemma hierarchy_deeper:
  assumes "hierarchy depth T" and "Directory_Find (T k) nm \<noteq> -1"
  shows "depth k < depth (Directory_Find (T k) nm)"
proof -
  from Directory_Find_entry [OF assms(2)]
  obtain e where e: "e \<in> set (T k)" "inUse e" "sector e = Directory_Find (T k) nm" by auto
  from assms(1) e(1,2) have "depth k < depth (sector e)" by (simp add: hierarchy_def)
  then show ?thesis unfolding e(3) .
qed

lemma resolveLoop_depth:
  "hierarchy depth T \<Longrightarrow> resolveLoop T c rest cur = Some (k, nm) \<Longrightarrow> depth cur \<le> depth k"
proof (induction T c rest cur rule: resolveLoop.induct)
  case (1 T c rest cur)
  show ?case
  proof (cases "strtok rest")
    case None
    with "1.prems"(2) show ?thesis by (subst (asm) resolveLoop.simps) simp
  next
    case (Some p)
    obtain c' rest' where p: "p = (c', rest')" by (cases p)
    from "1.prems"(2) Some p have f: "Directory_Find (T cur) c \<noteq> -1"
      and r: "resolveLoop T c' rest' (Directory_Find (T cur) c) = Some (k, nm)"
      by (subst (asm) resolveLoop.simps, simp add: Let_def split: if_splits)+
    from "1.IH" [OF Some p [symmetric] refl f "1.prems"(1) r]
      hierarchy_deeper [OF "1.prems"(1) f]
    show ?thesis by simp
  qed
qed

lemma resolveLoop_child:
  "hierarchy depth T \<Longrightarrow> resolveLoop T c rest cur = Some (k, nm) \<Longrightarrow>
   Directory_Find (T k) nm \<noteq> -1 \<Longrightarrow>
   \<forall>j. depth j < depth (Directory_Find (T k) nm) \<longrightarrow> T' j = T j \<Longrightarrow>
   strtok r2 = strtok (rest @ ''/'' @ n) \<Longrightarrow> validName n \<Longrightarrow>
   resolveLoop T' c r2 cur = Some (Directory_Find (T k) nm, n)"
proof (induction T c rest cur arbitrary: r2 rule: resolveLoop.induct)
  case (1 T c rest cur)
  note h = "1.prems"(1) and res = "1.prems"(2) and found = "1.prems"(3)
    and same = "1.prems"(4) and r2 = "1.prems"(5) and v = "1.prems"(6)
  from resolveLoop_depth [OF h res] hierarchy_deeper [OF h found] same
  have cur: "T' cur = T cur" by simp
  show ?case
  proof (cases "strtok rest")
    case None
    with res have k: "k = cur" "nm = c" by (subst (asm) resolveLoop.simps, simp)+
    from r2 strtok_append_None [OF None v] have "strtok r2 = Some (n, [])" by simp
    then have "resolveLoop T' c r2 cur = resolveLoop T' n [] (Directory_Find (T cur) c)"
      using found k cur by (subst resolveLoop.simps) (simp add: Let_def)
    also have "\<dots> = Some (Directory_Find (T cur) c, n)"
      by (subst resolveLoop.simps) (simp add: strtok_def)
    finally show ?thesis using k by simp
  next
    case (Some p)
    obtain c' rest' where p: "p = (c', rest')" by (cases p)
    from res Some p have f: "Directory_Find (T cur) c \<noteq> -1"
      and r: "resolveLoop T c' rest' (Directory_Find (T cur) c) = Some (k, nm)"
      by (subst (asm) resolveLoop.simps, simp add: Let_def split: if_splits)+
    from strtok_append_Some [OF Some [unfolded p] v] r2
    obtain r3 where r3: "strtok r2 = Some (c', r3)" "strtok r3 = strtok (rest' @ ''/'' @ n)"
      by auto
    have "resolveLoop T' c r2 cur = resolveLoop T' c' r3 (Directory_Find (T cur) c)"
      using r3(1) f cur by (subst resolveLoop.simps) (simp add: Let_def)
    also have "\<dots> = Some (Directory_Find (T k) nm, n)"
      by (rule "1.IH" [OF Some p [symmetric] refl f h r found same r3(2) v])
    finally show ?thesis .
  qed
qed

lemma resolve_child:
  assumes h: "hierarchy depth T" and res: "resolve T path = Some (k, nm)"
    and found: "Directory_Find (T k) nm \<noteq> -1"
    and same: "\<forall>j. depth j < depth (Directory_Find (T k) nm) \<longrightarrow> T' j = T j"
    and v: "validName n"
  shows "resolve T' (path @ ''/'' @ n) = Some (Directory_Find (T k) nm, n)"
proof -
  from res obtain c rest where s: "strtok path = Some (c, rest)"
    and r: "resolveLoop T c rest DirectorySector = Some (k, nm)"
    by (auto simp: resolve_def split: option.splits)
  from strtok_append_Some [OF s v]
  obtain r2 where r2: "strtok (path @ ''/'' @ n) = Some (c, r2)"
    "strtok r2 = strtok (rest @ ''/'' @ n)" by auto
  show ?thesis
    using resolveLoop_child [OF h r found same r2(2) v] r2(1)
    by (simp add: resolve_def)
qed

text \<open>Clearing entries keeps a hierarchy.\<close>

lemma cleared_inUse:
  "cleared t t' \<Longrightarrow> e' \<in> set t' \<Longrightarrow> inUse e' \<Longrightarrow> e' \<in> set t"
proof (induction t arbitrary: t')
  case Nil
  then show ?case by simp
next
  case (Cons e t)
  from Cons.prems(1) obtain d u where u: "t' = d # u" "d = e \<or> d = e\<lparr>inUse := False\<rparr>"
    "cleared t u"
    by (auto simp: cleared_Cons)
  show ?case
  proof (cases "e' = d")
    case True
    with u(2) Cons.prems(3) show ?thesis by auto
  next
    case False
    with Cons.prems(2) u(1) have "e' \<in> set u" by simp
    from Cons.IH [OF u(3) this Cons.prems(3)] show ?thesis by simp
  qed
qed

lemma hierarchy_cleared:
  assumes "hierarchy depth T" and "\<forall>k. cleared (T k) (T' k)"
  shows "hierarchy depth T'"
  unfolding hierarchy_def
proof (intro allI ballI impI)
  fix k e
  assume "e \<in> set (T' k)" and "inUse e"
  with assms(2) have "e \<in> set (T k)" by (auto intro: cleared_inUse)
  with assms(1) \<open>inUse e\<close>
  show "validName (name e) \<and> sector e \<noteq> -1 \<and> depth k < depth (sector e)"
    by (simp add: hierarchy_def)
qed

text \<open>
  The table of the target while its children are removed: the entries the loop has
  passed are out of use, the others are as they were.
\<close>

lemma FindIndex_passed:
  "inUse e \<Longrightarrow> FindIndex (map (\<lambda>x. x\<lparr>inUse := False\<rparr>) pre @ e # es) (name e) = Some (length pre)"
  by (induction pre) simp_all

lemma passed_snoc:
  "(map (\<lambda>x. x\<lparr>inUse := False\<rparr>) pre @ e # es)
     [length pre := ((map (\<lambda>x. x\<lparr>inUse := False\<rparr>) pre @ e # es) ! length pre)\<lparr>inUse := False\<rparr>] =
   map (\<lambda>x. x\<lparr>inUse := False\<rparr>) (pre @ [e]) @ es"
proof -
  have "(map (\<lambda>x. x\<lparr>inUse := False\<rparr>) pre @ e # es) ! length (map (\<lambda>x. x\<lparr>inUse := False\<rparr>) pre) = e"
    by (rule nth_append_length)
  moreover have "(map (\<lambda>x. x\<lparr>inUse := False\<rparr>) pre @ e # es)
      [length (map (\<lambda>x. x\<lparr>inUse := False\<rparr>) pre) := e\<lparr>inUse := False\<rparr>] =
      map (\<lambda>x. x\<lparr>inUse := False\<rparr>) pre @ e\<lparr>inUse := False\<rparr> # es"
    by (rule list_update_length)
  ultimately show ?thesis by simp
qed

lemma removeEveryChild_clears:
  fixes depth :: "int \<Rightarrow> nat" and T0 :: "int \<Rightarrow> DirectoryEntry list"
    and H :: "int \<Rightarrow> FileHeader"
  assumes IH: "\<And>cur i n. tar < stackTop cur \<Longrightarrow> buffers cur tar = path @ ''/'' @ n \<Longrightarrow>
        length (path @ ''/'' @ n) < 1000 \<Longrightarrow> hierarchy depth (tables cur) \<Longrightarrow>
        resolve (tables cur) (path @ ''/'' @ n) = Some (s, n) \<Longrightarrow>
        FindIndex (tables cur s) n = Some i \<Longrightarrow>
        fst (Remove True tar cur) = Inr True \<Longrightarrow>
        tables (snd (Remove True tar cur)) s =
          (tables cur s)[i := (tables cur s ! i)\<lparr>inUse := False\<rparr>] \<and>
        (\<forall>j. depth j < depth s \<longrightarrow> tables (snd (Remove True tar cur)) j = tables cur j)"
    and h0: "hierarchy depth T0" and res0: "resolve T0 path = Some (k, nm)"
    and s: "s = Directory_Find (T0 k) nm" and found0: "s \<noteq> -1"
  shows "tar < stackTop cur \<Longrightarrow> hierarchy depth (tables cur) \<Longrightarrow>
         \<forall>j. depth j < depth s \<longrightarrow> tables cur j = T0 j \<Longrightarrow>
         tables cur s = map (\<lambda>x. x\<lparr>inUse := False\<rparr>) pre @ es \<Longrightarrow>
         headers cur = H \<Longrightarrow>
         fst (removeEveryChild_spec (Remove True) tar path es cur) = None \<Longrightarrow>
         tables (snd (removeEveryChild_spec (Remove True) tar path es cur)) s =
           map (\<lambda>x. x\<lparr>inUse := False\<rparr>) (pre @ es) \<and>
         (\<forall>j. depth j < depth s \<longrightarrow>
              tables (snd (removeEveryChild_spec (Remove True) tar path es cur)) j = T0 j) \<and>
         (\<forall>c \<in> set es. inUse c \<longrightarrow>
            \<not> Test (freeMapData (snd (removeEveryChild_spec (Remove True) tar path es cur)))
                  (sector c) \<and>
            (\<forall>d \<in> set (dataSectors (H (sector c))).
               \<not> Test (freeMapData (snd (removeEveryChild_spec (Remove True) tar path es cur)))
                     d))"
proof (induction es arbitrary: cur pre)
  case Nil
  then show ?case by simp
next
  case (Cons e es)
  note tar = Cons.prems(1) and h = Cons.prems(2) and above = Cons.prems(3)
    and tab = Cons.prems(4) and hdr = Cons.prems(5) and ok = Cons.prems(6)
  show ?case
  proof (cases "inUse e")
    case False
    then have "e\<lparr>inUse := False\<rparr> = e" by simp
    then have tab': "tables cur s = map (\<lambda>x. x\<lparr>inUse := False\<rparr>) (pre @ [e]) @ es"
      using tab by simp
    from ok False have ok': "fst (removeEveryChild_spec (Remove True) tar path es cur) = None"
      by simp
    from Cons.IH [OF tar h above tab' hdr ok'] False show ?thesis by simp
  next
    case True
    from ok True have len: "length (path @ ''/'' @ name e) < 1000"
      by (auto split: if_splits)
    define cur1 where "cur1 = cur\<lparr>buffers := (buffers cur)(tar := path @ ''/'' @ name e)\<rparr>"
    have c1: "tables cur1 = tables cur" "stackTop cur1 = stackTop cur"
      "buffers cur1 tar = path @ ''/'' @ name e"
      by (simp_all add: cur1_def)
    have unf: "removeEveryChild_spec (Remove True) tar path (e # es) cur =
        (case fst (Remove True tar cur1) of
           Inl err \<Rightarrow> (Some err, snd (Remove True tar cur1))
         | Inr removed \<Rightarrow>
             removeEveryChild_spec (Remove True) tar path es (snd (Remove True tar cur1)))"
      using True len unfolding cur1_def by (simp add: case_prod_beta split: sum.split)
    have e_in: "e \<in> set (tables cur s)" unfolding tab by simp
    with h True have v: "validName (name e)" and sec: "sector e \<noteq> -1"
      by (simp_all add: hierarchy_def)
    have same: "\<forall>j. depth j < depth (Directory_Find (T0 k) nm) \<longrightarrow> tables cur j = T0 j"
      using above unfolding s .
    have rs: "resolve (tables cur1) (path @ ''/'' @ name e) = Some (s, name e)"
      unfolding c1 s
      by (rule resolve_child [OF h0 res0 found0 [unfolded s] same v])
    have fi: "FindIndex (tables cur1 s) (name e) = Some (length pre)"
      unfolding c1 tab using True by (rule FindIndex_passed)
    have nth: "tables cur s ! length pre = e"
      unfolding tab using nth_append_length [of "map (\<lambda>x. x\<lparr>inUse := False\<rparr>) pre" e es] by simp
    have fnd_eq: "Directory_Find (tables cur1 s) (name e) = sector e"
      using fi nth by (simp add: Directory_Find_def c1)
    have fnd: "Directory_Find (tables cur1 s) (name e) \<noteq> -1"
      unfolding fnd_eq by (rule sec)
    define cur2 where "cur2 = snd (Remove True tar cur1)"
    have tar1: "tar < stackTop cur1" using tar by (simp add: c1)
    have len1: "length (buffers cur1 tar) < 1000" using len by (simp add: c1)
    have notFalse: "fst (Remove True tar cur1) \<noteq> Inr False"
    proof
      assume "fst (Remove True tar cur1) = Inr False"
      with Remove_result [OF tar1 len1, of True, THEN conjunct1]
      have "\<forall>k nm. resolve (tables cur1) (buffers cur1 tar) = Some (k, nm) \<longrightarrow>
                Directory_Find (tables cur1 k) nm = -1" by (rule iffD1)
      then have "resolve (tables cur1) (buffers cur1 tar) = Some (s, name e) \<longrightarrow>
                Directory_Find (tables cur1 s) (name e) = -1" by blast
      with rs fnd show False unfolding c1(3) by blast
    qed
    from ok have noErr: "\<exists>r. fst (Remove True tar cur1) = Inr r"
      unfolding unf by (cases "fst (Remove True tar cur1)") simp_all
    with notFalse have yes: "fst (Remove True tar cur1) = Inr True" by auto
    have h1: "hierarchy depth (tables cur1)" using h unfolding c1 .
    note p = IH [OF tar1 c1(3) len h1 rs fi yes, folded cur2_def, unfolded c1(1)]
    have post: "tables cur2 s = (tables cur s)[length pre := (tables cur s ! length pre)\<lparr>inUse := False\<rparr>]"
      "\<forall>j. depth j < depth s \<longrightarrow> tables cur2 j = tables cur j"
      using p by blast+
    have tab2: "tables cur2 s = map (\<lambda>x. x\<lparr>inUse := False\<rparr>) (pre @ [e]) @ es"
      unfolding post(1) tab by (rule passed_snoc)
    have above2: "\<forall>j. depth j < depth s \<longrightarrow> tables cur2 j = T0 j"
      using post(2) above by simp
    have "\<forall>j. cleared (tables cur1 j) (tables cur2 j)"
      using RemoveFuel_onlyClears [of 1000 True]
      unfolding onlyClears_def cur2_def Remove_def by blast
    with h1 have h2: "hierarchy depth (tables cur2)" by (rule hierarchy_cleared)
    have "stackTop cur2 = stackTop cur1"
      using Remove_keepsFrame unfolding keepsFrame_def cur2_def by blast
    with tar1 have tar2: "tar < stackTop cur2" by simp
    have rest: "removeEveryChild_spec (Remove True) tar path (e # es) cur =
                removeEveryChild_spec (Remove True) tar path es cur2"
      unfolding unf cur2_def using yes by simp
    from ok have ok2: "fst (removeEveryChild_spec (Remove True) tar path es cur2) = None"
      unfolding rest .
    have hdr1: "headers cur1 = H" using hdr by (simp add: cur1_def)
    have "headers cur2 = headers cur1"
      using RemoveFuel_onlyClears [of 1000 True]
      unfolding onlyClears_def cur2_def Remove_def by blast
    with hdr1 have hdr2: "headers cur2 = H" by simp
    from Remove_result [OF tar1 len1, of True, THEN conjunct2, THEN conjunct2] yes
    obtain k' nm' where child:
      "resolve (tables cur1) (buffers cur1 tar) = Some (k', nm')"
      "\<not> Test (freeMapData cur2) (Directory_Find (tables cur1 k') nm')"
      "\<forall>d \<in> set (dataSectors (headers cur1 (Directory_Find (tables cur1 k') nm'))).
         \<not> Test (freeMapData cur2) d"
      unfolding cur2_def by blast
    from child(1) rs have kn: "k' = s" "nm' = name e" unfolding c1(3) by simp_all
    note freed = child(2,3) [unfolded kn fnd_eq hdr1]
    define fin where "fin = snd (removeEveryChild_spec (Remove True) tar path es cur2)"
    have fe: "\<not> Test (freeMapData fin) (sector e)"
      unfolding fin_def using freed(1) by (rule removeEveryChild_keepsFree)
    have fd: "\<forall>d \<in> set (dataSectors (H (sector e))). \<not> Test (freeMapData fin) d"
      unfolding fin_def using freed(2) removeEveryChild_keepsFree by blast
    note ih = Cons.IH [OF tar2 h2 above2 tab2 hdr2 ok2, folded fin_def]
    from ih have i1: "tables fin s = map (\<lambda>x. x\<lparr>inUse := False\<rparr>) ((pre @ [e]) @ es)"
      and i2: "\<forall>j. depth j < depth s \<longrightarrow> tables fin j = T0 j"
      and i3: "\<forall>c \<in> set es. inUse c \<longrightarrow> \<not> Test (freeMapData fin) (sector c) \<and>
                 (\<forall>d \<in> set (dataSectors (H (sector c))). \<not> Test (freeMapData fin) d)"
      by blast+
    from i3 fe fd
    have i4: "\<forall>c \<in> set (e # es). inUse c \<longrightarrow> \<not> Test (freeMapData fin) (sector c) \<and>
                 (\<forall>d \<in> set (dataSectors (H (sector c))). \<not> Test (freeMapData fin) d)"
      by simp
    from i1 have i1': "tables fin s = map (\<lambda>x. x\<lparr>inUse := False\<rparr>) (pre @ e # es)" by simp
    show ?thesis unfolding rest fin_def [symmetric] using i1' i2 i4 by blast
  qed
qed

text \<open>
  What a successful \<open>Remove\<close> does to the directories of a hierarchy. The entry of the
  target is taken out of its parent directory, no directory that lies above the parent
  changes, and when the target is a directory and \<open>recursive\<close> is true, no entry of the
  target is in use any more, and the header sector and the data sectors of every child
  are free: the recursive calls found and removed every child.
\<close>

lemma Remove_clears:
  fixes depth :: "int \<Rightarrow> nat"
  shows "pathName < stackTop st \<Longrightarrow> length (buffers st pathName) < 1000 \<Longrightarrow>
     hierarchy depth (tables st) \<Longrightarrow>
     resolve (tables st) (buffers st pathName) = Some (k, nm) \<Longrightarrow>
     FindIndex (tables st k) nm = Some i \<Longrightarrow>
     fst (Remove recursive pathName st) = Inr True \<Longrightarrow>
     tables (snd (Remove recursive pathName st)) k =
       (tables st k)[i := (tables st k ! i)\<lparr>inUse := False\<rparr>] \<and>
     (\<forall>j. depth j < depth k \<longrightarrow> tables (snd (Remove recursive pathName st)) j = tables st j) \<and>
     (recursive \<and> isDir (tables st k ! i) \<longrightarrow>
        (\<forall>e \<in> set (tables (snd (Remove recursive pathName st)) (sector (tables st k ! i))).
           \<not> inUse e) \<and>
        (\<forall>c \<in> set (tables st (sector (tables st k ! i))). inUse c \<longrightarrow>
           \<not> Test (freeMapData (snd (Remove recursive pathName st))) (sector c) \<and>
           (\<forall>d \<in> set (dataSectors (headers st (sector c))).
              \<not> Test (freeMapData (snd (Remove recursive pathName st))) d)))"
proof (induction "1000 - length (buffers st pathName)"
       arbitrary: st pathName k nm i recursive rule: less_induct)
  case less
  note caller = less.prems(1) and len = less.prems(2) and h = less.prems(3)
    and res = less.prems(4) and fi = less.prems(5) and ok = less.prems(6)
  define r where "r = FindSubDirectory (stackTop st) (enterFrame st pathName 2)"
  note rs = resolve_enterFrame [of st pathName 2, folded r_def]
  from rs res obtain curDirFile where some: "fst r = Some curDirFile"
    by (cases "fst r") simp_all
  with rs res have k: "hdrSector curDirFile = k" and nm: "buffers (snd r) (stackTop st) = nm"
    by simp_all
  define directory where "directory = tables st k"
  define s where "s = Directory_Find directory nm"
  define st' where "st' = snd (Remove recursive pathName st)"
  have r1: "tables (snd r) = tables st"
    by (simp add: r_def FindSubDirectory_enterFrame_disk)
  from FindIndex_Some [OF fi] have i: "i < length directory" "inUse (directory ! i)"
    by (simp_all add: directory_def)
  have s_eq: "s = sector (directory ! i)" using fi by (simp add: s_def Directory_Find_def directory_def)
  have dir_eq: "Directory_isDir directory nm = isDir (directory ! i)"
    using fi by (simp add: Directory_isDir_def directory_def)
  have entry: "directory ! i \<in> set (tables st k)" using i by (simp add: directory_def)
  with h i(2) have found: "s \<noteq> -1" and deeper: "depth k < depth s"
    unfolding s_eq by (simp_all add: hierarchy_def directory_def)
  have rem: "snd (Directory_Remove directory nm) = directory[i := (directory ! i)\<lparr>inUse := False\<rparr>]"
    using fi by (simp add: Directory_Remove_def directory_def)
  define kids where "kids =
          (if Directory_isDir directory nm \<and> recursive
           then RemoveTargetChildren (RemoveFuel 999 True) pathName (stackTop st + 1) s (snd r)
           else (None, snd r))"
  have step: "Remove recursive pathName st =
          (if s = -1 then (Inr False, leaveFrame st (deleteUnlessRoot (snd r) curDirFile))
           else case fst kids of
                  Some e \<Rightarrow> (Inl e, leaveFrame st (snd kids))
                | None \<Rightarrow> (Inr True,
                     leaveFrame st (deleteUnlessRoot
                       (RemoveEntry (snd kids) curDirFile (tables st (hdrSector curDirFile))
                          (buffers (snd r) (stackTop st)) s) curDirFile)))"
    unfolding Remove_step kids_def s_def directory_def k [symmetric] nm [symmetric] r_def
    by (rule RemoveFuel_Suc_resolved [OF len some [unfolded r_def]])
  from ok found have noerr: "fst kids = None"
    unfolding step by (auto split: option.splits)
  have st': "st' = leaveFrame st (deleteUnlessRoot
                       (RemoveEntry (snd kids) curDirFile directory nm s) curDirFile)"
    unfolding st'_def step using found noerr by (simp add: k nm directory_def)
  have tb: "tables st' = (tables (snd kids))(k := directory[i := (directory ! i)\<lparr>inUse := False\<rparr>])"
    unfolding st' by (simp add: RemoveEntry_tables k rem)
  show ?case
  proof (cases "Directory_isDir directory nm \<and> recursive")
    case False
    then have "kids = (None, snd r)" unfolding kids_def by (rule if_not_P)
    then have "snd kids = snd r" by simp
    with tb r1 have "tables st' = (tables st)(k := directory[i := (directory ! i)\<lparr>inUse := False\<rparr>])"
      by simp
    with False show ?thesis
      unfolding st'_def [symmetric] dir_eq by (auto simp: directory_def)
  next
    case True
    then have rec: "recursive = True" and isd: "Directory_isDir directory nm" by simp_all
    define sb where "sb = (snd (newOpenFile (snd r) s))
      \<lparr>buffers := (buffers (snd r))(stackTop st + 1 := buffers st pathName @ ''/'')\<rparr>"
    define children where "children = removeEveryChild_spec (Remove True) (stackTop st + 1)
                          (buffers st pathName) (tables st s) sb"
    have eq: "Remove True pathName st =
     (case fst children of
        Some e \<Rightarrow> (Inl e, leaveFrame st (deleteOpenFile (snd children) (fst (newOpenFile (snd r) s))))
      | None \<Rightarrow>
          (Inr True,
           leaveFrame st (deleteUnlessRoot
             (RemoveEntry (deleteOpenFile (snd children) (fst (newOpenFile (snd r) s)))
                curDirFile (tables st (hdrSector curDirFile)) (buffers (snd r) (stackTop st))
                (Directory_Find (tables st (hdrSector curDirFile)) (buffers (snd r) (stackTop st))))
             curDirFile)))"
      unfolding children_def sb_def s_def directory_def k [symmetric] nm [symmetric] r_def
      by (rule Remove_recursion [OF caller len some [unfolded r_def]])
         (use found isd in \<open>simp_all add: s_def directory_def k [symmetric] nm [symmetric] r_def\<close>)
    from ok have cnone: "fst children = None"
      unfolding rec eq by (auto split: option.splits)
    have st2: "st' = leaveFrame st (deleteUnlessRoot
             (RemoveEntry (deleteOpenFile (snd children) (fst (newOpenFile (snd r) s)))
                curDirFile directory nm s) curDirFile)"
      unfolding st'_def rec eq using cnone by (simp add: k nm directory_def s_def)
    have tb2: "tables st' = (tables (snd children))(k := directory[i := (directory ! i)\<lparr>inUse := False\<rparr>])"
      unfolding st2 by (simp add: RemoveEntry_tables k rem newOpenFile_def)
    have rtop: "stackTop (snd r) = stackTop st + 2"
      by (simp add: r_def FindSubDirectory_stackTop)
    have sb: "stackTop st + 1 < stackTop sb" "tables sb = tables st"
      by (simp_all add: sb_def r1 rtop newOpenFile_def)
    have IH: "tables (snd (Remove True (stackTop st + 1) cur)) s =
          (tables cur s)[i' := (tables cur s ! i')\<lparr>inUse := False\<rparr>] \<and>
        (\<forall>j. depth j < depth s \<longrightarrow> tables (snd (Remove True (stackTop st + 1) cur)) j = tables cur j)"
      if "stackTop st + 1 < stackTop cur"
        and "buffers cur (stackTop st + 1) = buffers st pathName @ ''/'' @ n"
        and "length (buffers st pathName @ ''/'' @ n) < 1000"
        and "hierarchy depth (tables cur)"
        and "resolve (tables cur) (buffers st pathName @ ''/'' @ n) = Some (s, n)"
        and "FindIndex (tables cur s) n = Some i'"
        and "fst (Remove True (stackTop st + 1) cur) = Inr True"
      for cur i' n
    proof -
      have m: "1000 - length (buffers cur (stackTop st + 1)) < 1000 - length (buffers st pathName)"
        using that(2,3) len by simp
      have l: "length (buffers cur (stackTop st + 1)) < 1000" using that(2,3) by simp
      have rs': "resolve (tables cur) (buffers cur (stackTop st + 1)) = Some (s, n)"
        using that(5) unfolding that(2) .
      from less.hyps [OF m that(1) l that(4) rs' that(6) that(7)]
      show ?thesis by blast
    qed
    have h0: "hierarchy depth (tables st)" by (rule h)
    have s0: "s = Directory_Find (tables st k) nm" by (simp add: s_def directory_def)
    have above: "\<forall>j. depth j < depth s \<longrightarrow> tables sb j = tables st j" by (simp add: sb)
    have tab: "tables sb s = map (\<lambda>x. x\<lparr>inUse := False\<rparr>) [] @ tables st s" by (simp add: sb)
    have hsb: "hierarchy depth (tables sb)" using h by (simp add: sb)
    have r2: "headers (snd r) = headers st"
      by (simp add: r_def FindSubDirectory_enterFrame_disk)
    have hsb2: "headers sb = headers st" by (simp add: sb_def r2)
    note loop = removeEveryChild_clears [of "stackTop st + 1" "buffers st pathName" depth s
        "tables st" k nm sb "[]" "tables st s" "headers st",
        OF IH h0 res s0 found sb(1) hsb above tab hsb2
        cnone [unfolded children_def], folded children_def]
    from loop have all: "tables (snd children) s = map (\<lambda>x. x\<lparr>inUse := False\<rparr>) (tables st s)"
      and up: "\<forall>j. depth j < depth s \<longrightarrow> tables (snd children) j = tables st j"
      and fr: "\<forall>c \<in> set (tables st s). inUse c \<longrightarrow>
            \<not> Test (freeMapData (snd children)) (sector c) \<and>
            (\<forall>d \<in> set (dataSectors (headers st (sector c))).
               \<not> Test (freeMapData (snd children)) d)"
      by simp_all
    have keep: "\<not> Test (freeMapData st') x" if "\<not> Test (freeMapData (snd children)) x" for x
      unfolding st2 using that
      by (simp add: RemoveEntry_tables Test_Clear_other Test_Deallocate_other)
    from deeper have ks: "s \<noteq> k" by auto
    have a: "tables st' k = (tables st k)[i := (tables st k ! i)\<lparr>inUse := False\<rparr>]"
      unfolding tb2 by (simp add: directory_def)
    have b: "\<forall>j. depth j < depth k \<longrightarrow> tables st' j = tables st j"
      unfolding tb2 using up deeper by auto
    have "tables st' s = map (\<lambda>x. x\<lparr>inUse := False\<rparr>) (tables st s)"
      unfolding tb2 using ks all by simp
    then have c: "\<forall>e \<in> set (tables st' s). \<not> inUse e" by auto
    from fr keep
    have d: "\<forall>c \<in> set (tables st s). inUse c \<longrightarrow>
            \<not> Test (freeMapData st') (sector c) \<and>
            (\<forall>d \<in> set (dataSectors (headers st (sector c))). \<not> Test (freeMapData st') d)"
      by blast
    from a b c d show ?thesis
      unfolding st'_def [symmetric] s_eq [symmetric, unfolded directory_def] by simp
  qed
qed

text \<open>
  Claim C4. For a path that fits the path array and lies in an array of the caller,
  \<open>Remove\<close> returns, and:
  \<^item> \<open>Remove\<close> returns false exactly when the target is not found (the parent path does
    not resolve, or the terminal name is not in the parent directory);
  \<^item> when the target is found, \<open>Remove\<close> returns true; the one exception is a directory
    removed with \<open>recursive\<close> true that holds a path too long for the path array, where
    the source overflows the array;
  \<^item> when the target is not a directory or \<open>recursive\<close> is false, \<open>Remove\<close> removes the
    target at once; when the target is a directory and \<open>recursive\<close> is true, it first
    calls itself on \<open>path + "/" + childName\<close> for every entry in use of the target, in
    the order of the table, and then removes the target;
  \<^item> when \<open>Remove\<close> returns true, the entry of the target is out of the parent directory
    on disk, the header sector of the target and all data sectors of its header are free
    in the free map on disk, and, on a disk whose directories have unique names, \<open>Open\<close>
    of the path returns null;
  \<^item> when \<open>Remove\<close> returns true for a directory with \<open>recursive\<close> true, on a disk whose
    directories form a hierarchy (the directory tree of the specification), no entry of
    the removed directory is in use any more, and the header sector and the data sectors
    of every entry that was in use are free in the free map on disk: every child was
    found and removed by its recursive call.
\<close>

theorem Remove_spec:
  fixes depth :: "int \<Rightarrow> nat"
  assumes caller: "pathName < stackTop st" and len: "length (buffers st pathName) < 1000"
  shows
    "fst (Remove recursive pathName st) \<noteq> Inl OutOfFuel \<and>
     (fst (Remove recursive pathName st) = Inr False \<longleftrightarrow>
        (\<forall>k nm. resolve (tables st) (buffers st pathName) = Some (k, nm) \<longrightarrow>
                Directory_Find (tables st k) nm = -1)) \<and>
     (\<forall>k nm. resolve (tables st) (buffers st pathName) = Some (k, nm) \<longrightarrow>
        Directory_Find (tables st k) nm \<noteq> -1 \<longrightarrow>
        fst (Remove recursive pathName st) = Inr True \<or>
        recursive \<and> Directory_isDir (tables st k) nm \<and>
        fst (Remove recursive pathName st) = Inl BufferOverflow) \<and>
     (\<forall>curDirFile.
        fst (FindSubDirectory (stackTop st) (enterFrame st pathName 2)) = Some curDirFile \<longrightarrow>
        (let st1 = snd (FindSubDirectory (stackTop st) (enterFrame st pathName 2));
             nm = buffers st1 (stackTop st);
             directory = tables st (hdrSector curDirFile);
             s = Directory_Find directory nm;
             sb = (snd (newOpenFile st1 s))
                    \<lparr>buffers := (buffers st1)(stackTop st + 1 := buffers st pathName @ ''/'')\<rparr>;
             children = removeEveryChild_spec (Remove True) (stackTop st + 1)
                          (buffers st pathName) (tables st s) sb
         in (s \<noteq> -1 \<and> \<not> (Directory_isDir directory nm \<and> recursive) \<longrightarrow>
               Remove recursive pathName st =
                 (Inr True,
                  leaveFrame st
                    (deleteUnlessRoot (RemoveEntry st1 curDirFile directory nm s) curDirFile))) \<and>
            (s \<noteq> -1 \<and> Directory_isDir directory nm \<longrightarrow>
               Remove True pathName st =
                 (case fst children of
                    Some e \<Rightarrow>
                      (Inl e,
                       leaveFrame st (deleteOpenFile (snd children) (fst (newOpenFile st1 s))))
                  | None \<Rightarrow>
                      (Inr True,
                       leaveFrame st (deleteUnlessRoot
                         (RemoveEntry (deleteOpenFile (snd children) (fst (newOpenFile st1 s)))
                            curDirFile directory nm s) curDirFile)))))) \<and>
     (fst (Remove recursive pathName st) = Inr True \<longrightarrow>
        (\<exists>k nm. resolve (tables st) (buffers st pathName) = Some (k, nm) \<and>
           tables (snd (Remove recursive pathName st)) k =
             snd (Directory_Remove (tables st k) nm) \<and>
           \<not> Test (freeMapData (snd (Remove recursive pathName st)))
                 (Directory_Find (tables st k) nm) \<and>
           (\<forall>d \<in> set (dataSectors (headers st (Directory_Find (tables st k) nm))).
              \<not> Test (freeMapData (snd (Remove recursive pathName st))) d) \<and>
           ((\<forall>k. uniqueNames (tables st k)) \<longrightarrow>
              fst (Open pathName (snd (Remove recursive pathName st))) = Inr None))) \<and>
     (recursive \<and> hierarchy depth (tables st) \<and>
      fst (Remove recursive pathName st) = Inr True \<longrightarrow>
        (\<forall>k nm. resolve (tables st) (buffers st pathName) = Some (k, nm) \<longrightarrow>
           Directory_isDir (tables st k) nm \<longrightarrow>
           (\<forall>e \<in> set (tables (snd (Remove recursive pathName st))
                          (Directory_Find (tables st k) nm)). \<not> inUse e) \<and>
           (\<forall>c \<in> set (tables st (Directory_Find (tables st k) nm)). inUse c \<longrightarrow>
              \<not> Test (freeMapData (snd (Remove recursive pathName st))) (sector c) \<and>
              (\<forall>d \<in> set (dataSectors (headers st (sector c))).
                 \<not> Test (freeMapData (snd (Remove recursive pathName st))) d))))"
proof -
  note res = Remove_result [OF caller len, of recursive]
  have rec: "\<forall>curDirFile.
        fst (FindSubDirectory (stackTop st) (enterFrame st pathName 2)) = Some curDirFile \<longrightarrow>
        (let st1 = snd (FindSubDirectory (stackTop st) (enterFrame st pathName 2));
             nm = buffers st1 (stackTop st);
             directory = tables st (hdrSector curDirFile);
             s = Directory_Find directory nm;
             sb = (snd (newOpenFile st1 s))
                    \<lparr>buffers := (buffers st1)(stackTop st + 1 := buffers st pathName @ ''/'')\<rparr>;
             children = removeEveryChild_spec (Remove True) (stackTop st + 1)
                          (buffers st pathName) (tables st s) sb
         in (s \<noteq> -1 \<and> \<not> (Directory_isDir directory nm \<and> recursive) \<longrightarrow>
               Remove recursive pathName st =
                 (Inr True,
                  leaveFrame st
                    (deleteUnlessRoot (RemoveEntry st1 curDirFile directory nm s) curDirFile))) \<and>
            (s \<noteq> -1 \<and> Directory_isDir directory nm \<longrightarrow>
               Remove True pathName st =
                 (case fst children of
                    Some e \<Rightarrow>
                      (Inl e,
                       leaveFrame st (deleteOpenFile (snd children) (fst (newOpenFile st1 s))))
                  | None \<Rightarrow>
                      (Inr True,
                       leaveFrame st (deleteUnlessRoot
                         (RemoveEntry (deleteOpenFile (snd children) (fst (newOpenFile st1 s)))
                            curDirFile directory nm s) curDirFile)))))"
  proof (intro allI impI)
    fix curDirFile
    assume f: "fst (FindSubDirectory (stackTop st) (enterFrame st pathName 2)) = Some curDirFile"
    show "let st1 = snd (FindSubDirectory (stackTop st) (enterFrame st pathName 2));
             nm = buffers st1 (stackTop st);
             directory = tables st (hdrSector curDirFile);
             s = Directory_Find directory nm;
             sb = (snd (newOpenFile st1 s))
                    \<lparr>buffers := (buffers st1)(stackTop st + 1 := buffers st pathName @ ''/'')\<rparr>;
             children = removeEveryChild_spec (Remove True) (stackTop st + 1)
                          (buffers st pathName) (tables st s) sb
         in (s \<noteq> -1 \<and> \<not> (Directory_isDir directory nm \<and> recursive) \<longrightarrow>
               Remove recursive pathName st =
                 (Inr True,
                  leaveFrame st
                    (deleteUnlessRoot (RemoveEntry st1 curDirFile directory nm s) curDirFile))) \<and>
            (s \<noteq> -1 \<and> Directory_isDir directory nm \<longrightarrow>
               Remove True pathName st =
                 (case fst children of
                    Some e \<Rightarrow>
                      (Inl e,
                       leaveFrame st (deleteOpenFile (snd children) (fst (newOpenFile st1 s))))
                  | None \<Rightarrow>
                      (Inr True,
                       leaveFrame st (deleteUnlessRoot
                         (RemoveEntry (deleteOpenFile (snd children) (fst (newOpenFile st1 s)))
                            curDirFile directory nm s) curDirFile))))"
      unfolding Let_def
    proof (intro conjI impI; elim conjE)
      assume "Directory_Find (tables st (hdrSector curDirFile))
                (buffers (snd (FindSubDirectory (stackTop st) (enterFrame st pathName 2)))
                   (stackTop st)) \<noteq> -1"
        and "\<not> (Directory_isDir (tables st (hdrSector curDirFile))
                (buffers (snd (FindSubDirectory (stackTop st) (enterFrame st pathName 2)))
                   (stackTop st)) \<and> recursive)"
      then show "Remove recursive pathName st =
         (Inr True,
          leaveFrame st (deleteUnlessRoot
            (RemoveEntry (snd (FindSubDirectory (stackTop st) (enterFrame st pathName 2)))
               curDirFile (tables st (hdrSector curDirFile))
               (buffers (snd (FindSubDirectory (stackTop st) (enterFrame st pathName 2)))
                  (stackTop st))
               (Directory_Find (tables st (hdrSector curDirFile))
                  (buffers (snd (FindSubDirectory (stackTop st) (enterFrame st pathName 2)))
                     (stackTop st))))
            curDirFile))"
        by (rule Remove_plain [OF len f])
    next
      assume "Directory_Find (tables st (hdrSector curDirFile))
                (buffers (snd (FindSubDirectory (stackTop st) (enterFrame st pathName 2)))
                   (stackTop st)) \<noteq> -1"
        and "Directory_isDir (tables st (hdrSector curDirFile))
                (buffers (snd (FindSubDirectory (stackTop st) (enterFrame st pathName 2)))
                   (stackTop st))"
      then show "Remove True pathName st =
         (case fst (removeEveryChild_spec (Remove True) (stackTop st + 1) (buffers st pathName)
                 (tables st (Directory_Find (tables st (hdrSector curDirFile))
                    (buffers (snd (FindSubDirectory (stackTop st) (enterFrame st pathName 2)))
                       (stackTop st))))
                 ((snd (newOpenFile (snd (FindSubDirectory (stackTop st) (enterFrame st pathName 2)))
                     (Directory_Find (tables st (hdrSector curDirFile))
                        (buffers (snd (FindSubDirectory (stackTop st) (enterFrame st pathName 2)))
                           (stackTop st)))))
                  \<lparr>buffers := (buffers (snd (FindSubDirectory (stackTop st)
                                   (enterFrame st pathName 2))))
                     (stackTop st + 1 := buffers st pathName @ ''/'')\<rparr>)) of
            Some e \<Rightarrow>
              (Inl e,
               leaveFrame st (deleteOpenFile
                 (snd (removeEveryChild_spec (Remove True) (stackTop st + 1) (buffers st pathName)
                 (tables st (Directory_Find (tables st (hdrSector curDirFile))
                    (buffers (snd (FindSubDirectory (stackTop st) (enterFrame st pathName 2)))
                       (stackTop st))))
                 ((snd (newOpenFile (snd (FindSubDirectory (stackTop st) (enterFrame st pathName 2)))
                     (Directory_Find (tables st (hdrSector curDirFile))
                        (buffers (snd (FindSubDirectory (stackTop st) (enterFrame st pathName 2)))
                           (stackTop st)))))
                  \<lparr>buffers := (buffers (snd (FindSubDirectory (stackTop st)
                                   (enterFrame st pathName 2))))
                     (stackTop st + 1 := buffers st pathName @ ''/'')\<rparr>)))
                 (fst (newOpenFile (snd (FindSubDirectory (stackTop st) (enterFrame st pathName 2)))
                     (Directory_Find (tables st (hdrSector curDirFile))
                        (buffers (snd (FindSubDirectory (stackTop st) (enterFrame st pathName 2)))
                           (stackTop st)))))))
          | None \<Rightarrow>
              (Inr True,
               leaveFrame st (deleteUnlessRoot
                 (RemoveEntry (deleteOpenFile
                 (snd (removeEveryChild_spec (Remove True) (stackTop st + 1) (buffers st pathName)
                 (tables st (Directory_Find (tables st (hdrSector curDirFile))
                    (buffers (snd (FindSubDirectory (stackTop st) (enterFrame st pathName 2)))
                       (stackTop st))))
                 ((snd (newOpenFile (snd (FindSubDirectory (stackTop st) (enterFrame st pathName 2)))
                     (Directory_Find (tables st (hdrSector curDirFile))
                        (buffers (snd (FindSubDirectory (stackTop st) (enterFrame st pathName 2)))
                           (stackTop st)))))
                  \<lparr>buffers := (buffers (snd (FindSubDirectory (stackTop st)
                                   (enterFrame st pathName 2))))
                     (stackTop st + 1 := buffers st pathName @ ''/'')\<rparr>)))
                 (fst (newOpenFile (snd (FindSubDirectory (stackTop st) (enterFrame st pathName 2)))
                     (Directory_Find (tables st (hdrSector curDirFile))
                        (buffers (snd (FindSubDirectory (stackTop st) (enterFrame st pathName 2)))
                           (stackTop st))))))
                    curDirFile (tables st (hdrSector curDirFile))
                    (buffers (snd (FindSubDirectory (stackTop st) (enterFrame st pathName 2)))
                       (stackTop st))
                    (Directory_Find (tables st (hdrSector curDirFile))
                       (buffers (snd (FindSubDirectory (stackTop st) (enterFrame st pathName 2)))
                          (stackTop st))))
                 curDirFile)))"
        by (rule Remove_recursion [OF caller len f])
    qed
  qed
  have kids: "recursive \<and> hierarchy depth (tables st) \<and>
      fst (Remove recursive pathName st) = Inr True \<longrightarrow>
        (\<forall>k nm. resolve (tables st) (buffers st pathName) = Some (k, nm) \<longrightarrow>
           Directory_isDir (tables st k) nm \<longrightarrow>
           (\<forall>e \<in> set (tables (snd (Remove recursive pathName st))
                          (Directory_Find (tables st k) nm)). \<not> inUse e) \<and>
           (\<forall>c \<in> set (tables st (Directory_Find (tables st k) nm)). inUse c \<longrightarrow>
              \<not> Test (freeMapData (snd (Remove recursive pathName st))) (sector c) \<and>
              (\<forall>d \<in> set (dataSectors (headers st (sector c))).
                 \<not> Test (freeMapData (snd (Remove recursive pathName st))) d)))"
  proof (intro impI allI; elim conjE)
    fix k nm
    assume r: recursive and h: "hierarchy depth (tables st)"
      and ok: "fst (Remove recursive pathName st) = Inr True"
      and rs: "resolve (tables st) (buffers st pathName) = Some (k, nm)"
      and d: "Directory_isDir (tables st k) nm"
    from d obtain i where i: "FindIndex (tables st k) nm = Some i"
      by (cases "FindIndex (tables st k) nm") (simp_all add: Directory_isDir_def)
    then have e: "Directory_isDir (tables st k) nm = isDir (tables st k ! i)"
      "Directory_Find (tables st k) nm = sector (tables st k ! i)"
      by (simp_all add: Directory_isDir_def Directory_Find_def)
    from Remove_clears [OF caller len h rs i ok] r d
    show "(\<forall>e \<in> set (tables (snd (Remove recursive pathName st))
                       (Directory_Find (tables st k) nm)). \<not> inUse e) \<and>
          (\<forall>c \<in> set (tables st (Directory_Find (tables st k) nm)). inUse c \<longrightarrow>
              \<not> Test (freeMapData (snd (Remove recursive pathName st))) (sector c) \<and>
              (\<forall>d \<in> set (dataSectors (headers st (sector c))).
                 \<not> Test (freeMapData (snd (Remove recursive pathName st))) d))"
      unfolding e by blast
  qed
  show ?thesis
    by (rule conjI [OF Remove_fuel_suffices [OF caller]
          conjI [OF res [THEN conjunct1]
            conjI [OF res [THEN conjunct2, THEN conjunct1]
              conjI [OF rec conjI [OF res [THEN conjunct2, THEN conjunct2] kids]]]]])
qed

lemma RemoveFuel_999_Suc:
  "RemoveFuel 999 recursive pathName st = RemoveFuel (Suc 998) recursive pathName st"
  by simp

lemmas Remove_unfold = trans [OF Remove_step RemoveFuel.simps(2)]

lemmas RemoveFuel_999_unfold = trans [OF RemoveFuel_999_Suc RemoveFuel.simps(2)]

lemma example_unique: "uniqueNames (tables (example_fs path) k)"
  by (simp add: example_fs_def uniqueNames_def unusedEntry_def)

lemma example_remove_a:
  "fst (Remove True 0 (example_fs ''/a'')) = Inr True"
  "freeMapData (snd (Remove True 0 (example_fs ''/a''))) =
     [True, True, True, True, False, False, False, False,
      False, False, False, False, False, False, False, False]"
  "diskWrites (snd (Remove True 0 (example_fs ''/a''))) =
     [FreeMapWrite, DirectoryWrite 5, FreeMapWrite, DirectoryWrite 1]"
  "liveFiles (snd (Remove True 0 (example_fs ''/a''))) = {}"
  by (simp_all add: Remove_unfold RemoveFuel_999_unfold RemoveTargetChildren_def RemoveEntry_def
      FindSubDirectory_def FindSubDirectory_loop.simps strtok_def enterFrame_def leaveFrame_def
      example_fs_def unusedEntry_def Directory_Find_def Directory_isDir_def
      Directory_Remove_def DirectorySector_def newOpenFile_def deleteUnlessRoot_def
      writeDirectory_def writeFreeMap_def Deallocate_def Clear_def Let_def)

lemma example_hierarchy:
  "hierarchy ((\<lambda>_. 0)(5 := 1, 9 := 2)) (tables (example_fs path))"
  by (simp add: hierarchy_def example_fs_def unusedEntry_def validName_def)

lemma example_entries:
  "Directory_Find (tables (example_fs path) 1) ''a'' = 5"
  "Directory_isDir (tables (example_fs path) 1) ''a''"
  "Directory_Find (tables (example_fs path) 5) ''b'' = 9"
  "\<not> Directory_isDir (tables (example_fs path) 5) ''b''"
  "Directory_Find (tables (example_fs path) 5) ''c'' = -1"
  "dataSectors (headers (example_fs path) 5) = [6]"
  "dataSectors (headers (example_fs path) 9) = [10, 11]"
  by (simp_all add: Directory_Find_def Directory_isDir_def example_fs_def unusedEntry_def)

lemma example_resolve:
  "resolve (tables (example_fs path)) ''/a'' = Some (1, ''a'')"
  "resolve (tables (example_fs path)) ''/a/b'' = Some (5, ''b'')"
  "resolve (tables (example_fs path)) ''/a/c'' = Some (5, ''c'')"
  by (simp_all add: resolve_def resolveLoop.simps strtok_def DirectorySector_def
      Directory_Find_def example_fs_def unusedEntry_def)

text \<open>
  The scenario of the specification: on the example disk \<open>Remove(true, "/a")\<close> succeeds;
  afterwards \<open>Open("/a")\<close> returns null, the sectors of \<open>/a\<close> (5 and 6) are free, as are
  those of \<open>/a/b\<close> (9, 10 and 11), which the recursion removed first, and no entry of
  the directory in sector 5 is in use. Without recursion, \<open>Remove(false, "/a/b")\<close>
  succeeds, frees the sectors 9, 10 and 11 and makes \<open>Open("/a/b")\<close> return null, and
  \<open>Remove(false, "/a/c")\<close> returns false, there being no entry \<open>c\<close>.
\<close>

theorem Remove_spec_witness:
  "(0::nat) < stackTop (example_fs ''/a'') \<and>
   length (buffers (example_fs ''/a'') 0) < 1000 \<and>
   resolve (tables (example_fs ''/a'')) ''/a'' = Some (1, ''a'') \<and>
   hierarchy ((\<lambda>_. 0)(5 := 1, 9 := 2)) (tables (example_fs ''/a'')) \<and>
   fst (Remove True 0 (example_fs ''/a'')) = Inr True \<and>
   \<not> Test (freeMapData (snd (Remove True 0 (example_fs ''/a'')))) 5 \<and>
   \<not> Test (freeMapData (snd (Remove True 0 (example_fs ''/a'')))) 6 \<and>
   list_all (\<lambda>e. \<not> inUse e) (tables (snd (Remove True 0 (example_fs ''/a''))) 5) \<and>
   \<not> Test (freeMapData (snd (Remove True 0 (example_fs ''/a'')))) 9 \<and>
   \<not> Test (freeMapData (snd (Remove True 0 (example_fs ''/a'')))) 10 \<and>
   \<not> Test (freeMapData (snd (Remove True 0 (example_fs ''/a'')))) 11 \<and>
   Directory_Find (tables (snd (Remove True 0 (example_fs ''/a''))) 1) ''a'' = -1 \<and>
   fst (Open 0 (snd (Remove True 0 (example_fs ''/a'')))) = Inr None \<and>
   freeMapData (snd (Remove True 0 (example_fs ''/a''))) =
     [True, True, True, True, False, False, False, False,
      False, False, False, False, False, False, False, False] \<and>
   resolve (tables (example_fs ''/a/b'')) ''/a/b'' = Some (5, ''b'') \<and>
   fst (Remove False 0 (example_fs ''/a/b'')) = Inr True \<and>
   \<not> Test (freeMapData (snd (Remove False 0 (example_fs ''/a/b'')))) 9 \<and>
   \<not> Test (freeMapData (snd (Remove False 0 (example_fs ''/a/b'')))) 10 \<and>
   \<not> Test (freeMapData (snd (Remove False 0 (example_fs ''/a/b'')))) 11 \<and>
   Directory_Find (tables (snd (Remove False 0 (example_fs ''/a/b''))) 5) ''b'' = -1 \<and>
   fst (Open 0 (snd (Remove False 0 (example_fs ''/a/b'')))) = Inr None \<and>
   fst (Remove False 0 (example_fs ''/a/c'')) = Inr False"
proof -
  have hyp: "(0::nat) < stackTop (example_fs path)"
    "length (buffers (example_fs ''/a'') 0) < 1000"
    "length (buffers (example_fs ''/a/b'') 0) < 1000"
    "length (buffers (example_fs ''/a/c'') 0) < 1000" for path
    by simp_all
  have buf: "buffers (example_fs path) 0 = path" for path by simp
  note a = Remove_spec [OF hyp(1,2), where recursive = True
             and depth = "(\<lambda>_. 0)(5 := 1, 9 := 2)", unfolded buf]
  note b = Remove_spec [OF hyp(1,3), where recursive = False
             and depth = "(\<lambda>_. 0)(5 := 1, 9 := 2)", unfolded buf]
  note c = Remove_spec [OF hyp(1,4), where recursive = False
             and depth = "(\<lambda>_. 0)(5 := 1, 9 := 2)", unfolded buf]
  note a5 = a [THEN conjunct2, THEN conjunct2, THEN conjunct2, THEN conjunct2, THEN conjunct1]
  note a6 = a [THEN conjunct2, THEN conjunct2, THEN conjunct2, THEN conjunct2, THEN conjunct2]
  note b3 = b [THEN conjunct2, THEN conjunct2, THEN conjunct1]
  note b5 = b [THEN conjunct2, THEN conjunct2, THEN conjunct2, THEN conjunct2, THEN conjunct1]
  note c2 = c [THEN conjunct2, THEN conjunct1]
  have ra: "fst (Remove True 0 (example_fs ''/a'')) = Inr True" by (rule example_remove_a(1))
  have u: "\<forall>k. uniqueNames (tables (example_fs path) k)" for path
    using example_unique by blast
  from a5 ra obtain k nm where x:
    "resolve (tables (example_fs ''/a'')) ''/a'' = Some (k, nm)"
    "tables (snd (Remove True 0 (example_fs ''/a''))) k =
       snd (Directory_Remove (tables (example_fs ''/a'') k) nm)"
    "\<not> Test (freeMapData (snd (Remove True 0 (example_fs ''/a''))))
         (Directory_Find (tables (example_fs ''/a'') k) nm)"
    "\<forall>d \<in> set (dataSectors (headers (example_fs ''/a'')
                 (Directory_Find (tables (example_fs ''/a'') k) nm))).
        \<not> Test (freeMapData (snd (Remove True 0 (example_fs ''/a'')))) d"
    "(\<forall>k. uniqueNames (tables (example_fs ''/a'') k)) \<longrightarrow>
       fst (Open 0 (snd (Remove True 0 (example_fs ''/a'')))) = Inr None"
    by blast
  from x(1) have kn: "k = 1" "nm = ''a''" unfolding example_resolve by simp_all
  note pa = x(2-5) [unfolded kn example_entries]
  from pa(3) have pa6: "\<not> Test (freeMapData (snd (Remove True 0 (example_fs ''/a'')))) 6"
    by simp
  from pa(4) u have oa: "fst (Open 0 (snd (Remove True 0 (example_fs ''/a'')))) = Inr None"
    by blast
  have ga: "Directory_Find (tables (snd (Remove True 0 (example_fs ''/a''))) 1) ''a'' = -1"
    unfolding x(2) [unfolded kn] using example_unique by (rule Directory_Remove_gone)
  have "\<forall>e \<in> set (tables (snd (Remove True 0 (example_fs ''/a'')))
                    (Directory_Find (tables (example_fs ''/a'') 1) ''a'')). \<not> inUse e"
    using a6 ra example_hierarchy [of "''/a''"] example_resolve(1) [of "''/a''"]
      example_entries(2) [of "''/a''"]
    by blast
  then have ka: "list_all (\<lambda>e. \<not> inUse e) (tables (snd (Remove True 0 (example_fs ''/a''))) 5)"
    unfolding example_entries list_all_iff .
  have "\<forall>c \<in> set (tables (example_fs ''/a'')
                    (Directory_Find (tables (example_fs ''/a'') 1) ''a'')).
          inUse c \<longrightarrow>
          \<not> Test (freeMapData (snd (Remove True 0 (example_fs ''/a'')))) (sector c) \<and>
          (\<forall>d \<in> set (dataSectors (headers (example_fs ''/a'') (sector c))).
             \<not> Test (freeMapData (snd (Remove True 0 (example_fs ''/a'')))) d)"
    using a6 ra example_hierarchy [of "''/a''"] example_resolve(1) [of "''/a''"]
      example_entries(2) [of "''/a''"]
    by blast
  note kb = this [unfolded example_entries, rule_format]
  define child where "child = \<lparr>inUse = True, name = ''b'', sector = 9, isDir = False\<rparr>"
  have ch: "child \<in> set (tables (example_fs ''/a'') 5)" "inUse child" "sector child = 9"
    by (simp_all add: child_def example_fs_def)
  note kc = kb [OF ch(1,2), unfolded ch(3) example_entries]
  from kc have k9: "\<not> Test (freeMapData (snd (Remove True 0 (example_fs ''/a'')))) 9"
    and k10: "\<not> Test (freeMapData (snd (Remove True 0 (example_fs ''/a'')))) 10"
    and k11: "\<not> Test (freeMapData (snd (Remove True 0 (example_fs ''/a'')))) 11"
    by simp_all
  have fb: "Directory_Find (tables (example_fs ''/a/b'') 5) ''b'' \<noteq> -1"
    unfolding example_entries by simp
  from b3 example_resolve(2) [of "''/a/b''"] fb
  have rb: "fst (Remove False 0 (example_fs ''/a/b'')) = Inr True"
    by blast
  from b5 rb obtain k' nm' where y:
    "resolve (tables (example_fs ''/a/b'')) ''/a/b'' = Some (k', nm')"
    "tables (snd (Remove False 0 (example_fs ''/a/b''))) k' =
       snd (Directory_Remove (tables (example_fs ''/a/b'') k') nm')"
    "\<not> Test (freeMapData (snd (Remove False 0 (example_fs ''/a/b''))))
         (Directory_Find (tables (example_fs ''/a/b'') k') nm')"
    "\<forall>d \<in> set (dataSectors (headers (example_fs ''/a/b'')
                 (Directory_Find (tables (example_fs ''/a/b'') k') nm'))).
        \<not> Test (freeMapData (snd (Remove False 0 (example_fs ''/a/b'')))) d"
    "(\<forall>k. uniqueNames (tables (example_fs ''/a/b'') k)) \<longrightarrow>
       fst (Open 0 (snd (Remove False 0 (example_fs ''/a/b'')))) = Inr None"
    by blast
  from y(1) have kn': "k' = 5" "nm' = ''b''" unfolding example_resolve by simp_all
  note pb = y(2-5) [unfolded kn' example_entries]
  from pb(3) have pb10: "\<not> Test (freeMapData (snd (Remove False 0 (example_fs ''/a/b'')))) 10"
    and pb11: "\<not> Test (freeMapData (snd (Remove False 0 (example_fs ''/a/b'')))) 11"
    by simp_all
  from pb(4) u have ob: "fst (Open 0 (snd (Remove False 0 (example_fs ''/a/b'')))) = Inr None"
    by blast
  have gb: "Directory_Find (tables (snd (Remove False 0 (example_fs ''/a/b''))) 5) ''b'' = -1"
    unfolding y(2) [unfolded kn'] using example_unique by (rule Directory_Remove_gone)
  have "\<forall>k nm. resolve (tables (example_fs ''/a/c'')) ''/a/c'' = Some (k, nm) \<longrightarrow>
          Directory_Find (tables (example_fs ''/a/c'') k) nm = -1"
  proof (intro allI impI)
    fix k nm
    assume "resolve (tables (example_fs ''/a/c'')) ''/a/c'' = Some (k, nm)"
    then have "k = 5" "nm = ''c''" unfolding example_resolve by simp_all
    then show "Directory_Find (tables (example_fs ''/a/c'') k) nm = -1"
      using example_entries(5) [of "''/a/c''"] by (simp only:)
  qed
  with c2 have rc: "fst (Remove False 0 (example_fs ''/a/c'')) = Inr False" by blast
  from hyp(1) [of "''/a''"] hyp(2) example_resolve(1) [of "''/a''"]
    example_hierarchy [of "''/a''"] ra pa(2) pa6 oa ka k9 k10 k11 ga example_remove_a(2)
    example_resolve(2) [of "''/a/b''"] rb pb(2) pb10 pb11 ob gb rc
  show ?thesis by blast
qed

end
